theory Spec2Isabelle
  imports Main
begin

section \<open>Primitive values\<close>

text \<open>
  The \<open>value\<close> field of a \<open>Number\<close> or \<open>Boolean\<close> node holds a JavaScript primitive.
  The primitives that the operators \<open>+\<close>, \<open>*\<close> and \<open><\<close> of chapter2.js can produce from
  numbers and booleans are numbers, \<open>NaN\<close>, booleans and \<open>undefined\<close>.  Numbers are
  modelled as unbounded integers (the spec's \<open>value: integer\<close>); the rounding of IEEE
  doubles beyond \<open>2^53\<close>, negative zero and the infinities are outside this model.
\<close>

datatype prim = PUndefined | PNum int | PNaN | PBool bool

text \<open>JavaScript's \<open>ToNumber\<close> on these primitives; \<open>None\<close> stands for \<open>NaN\<close>.\<close>

fun to_number :: "prim \<Rightarrow> int option" where
  "to_number PUndefined = None"
| "to_number (PNum n) = Some n"
| "to_number PNaN = None"
| "to_number (PBool b) = Some (if b then 1 else 0)"

text \<open>\<open>a + b\<close>, \<open>a * b\<close> and \<open>a < b\<close> on primitives that are not strings.\<close>

definition js_plus :: "prim \<Rightarrow> prim \<Rightarrow> prim" where
  "js_plus a b =
     (case to_number a of None \<Rightarrow> PNaN
      | Some x \<Rightarrow> (case to_number b of None \<Rightarrow> PNaN | Some y \<Rightarrow> PNum (x + y)))"

definition js_times :: "prim \<Rightarrow> prim \<Rightarrow> prim" where
  "js_times a b =
     (case to_number a of None \<Rightarrow> PNaN
      | Some x \<Rightarrow> (case to_number b of None \<Rightarrow> PNaN | Some y \<Rightarrow> PNum (x * y)))"

definition js_less :: "prim \<Rightarrow> prim \<Rightarrow> prim" where
  "js_less a b =
     (case to_number a of None \<Rightarrow> PBool False
      | Some x \<Rightarrow> (case to_number b of None \<Rightarrow> PBool False | Some y \<Rightarrow> PBool (x < y)))"

text \<open>\<open>ToBoolean\<close>, as the \<open>if (...)\<close> and \<open>while (...)\<close> of generated code apply it.\<close>

fun js_truthy :: "prim \<Rightarrow> bool" where
  "js_truthy PUndefined = False"
| "js_truthy (PNum n) = (n \<noteq> 0)"
| "js_truthy PNaN = False"
| "js_truthy (PBool b) = b"

section \<open>Nodes, environments and the store\<close>

text \<open>
  Expression nodes are the classes \<open>Number\<close>, \<open>Boolean\<close>, \<open>Variable\<close>, \<open>Add\<close>,
  \<open>Multiply\<close> and \<open>LessThan\<close>.  \<open>Undefined\<close> is the JavaScript value \<open>undefined\<close> standing
  where a node is expected: \<open>Variable.reduce\<close> returns it for a name the environment does
  not hold, and \<open>Add.reduce\<close> then stores it in the \<open>left\<close> or \<open>right\<close> field of the new node.
\<close>

datatype expr =
    Undefined
  | Number prim
  | Boolean prim
  | Variable string
  | Add expr expr
  | Multiply expr expr
  | LessThan expr expr

text \<open>
  Statement nodes.  The class \<open>If\<close> is named \<open>If_node\<close> here.  A field that holds an
  expression holds an expression node or \<open>undefined\<close>, and a field that holds a
  statement holds a statement node: a program that puts a statement where an expression
  belongs is not a program of this model.
\<close>

datatype stmt =
    DoNothing
  | Assign string expr
  | If_node expr stmt stmt
  | Sequence stmt stmt
  | While expr stmt

text \<open>
  An environment is a JavaScript object, and \<open>merge\<close> writes into the object it is given.
  Objects therefore live in a store and are passed by reference.  No method of
  chapter2.js creates an environment object, so the store never grows.  An object of
  the store is a plain object, as an object literal makes it: the map holds its own
  properties, which are writable data properties, new ones can be added, and its
  prototype is \<open>Object.prototype\<close>.
\<close>

type_synonym ref = nat
type_synonym object = "string \<rightharpoonup> expr"
type_synonym heap = "ref \<Rightarrow> object"

text \<open>
  What flows where an environment is expected: \<open>undefined\<close> (\<open>If.evaluate\<close> returns it
  when the condition is no boolean) or a reference to an object.
\<close>

datatype envref = NoObject | Ref ref

text \<open>
  The only exception chapter2.js can raise is the \<open>TypeError\<close> of JavaScript itself
  (a method called on, or a property read from, \<open>undefined\<close>; a method the class does
  not have): the file has no \<open>throw\<close>.  A call that throws returns \<open>Inl TypeError\<close>;
  what the store looked like at that moment is not kept.

  \<open>NotModelled\<close> is no exception of the program.  It is the answer of this model where
  JavaScript goes on with something the model has no value for: a property inherited
  from \<open>Object.prototype\<close> (a function of the runtime, or the prototype itself), an
  object whose prototype has been replaced through \<open>__proto__\<close>, and generated text in
  which a name is no identifier.  It is passed on like an exception, so a result
  \<open>Inr\<close> is always one that the code computes.
\<close>

datatype error = TypeError | NotModelled

text \<open>The names of the properties of \<open>Object.prototype\<close>, which every plain object inherits.\<close>

definition object_prototype_names :: "string list" where
  "object_prototype_names =
     [''constructor'', ''toString'', ''toLocaleString'', ''valueOf'', ''hasOwnProperty'',
      ''isPrototypeOf'', ''propertyIsEnumerable'', ''__defineGetter__'', ''__lookupGetter__'',
      ''__defineSetter__'', ''__lookupSetter__'', ''__proto__'']"

definition inherited :: "string \<Rightarrow> bool" where
  "inherited name = (name \<in> set object_prototype_names)"

text \<open>
  \<open>env[name]\<close>: reading from \<open>undefined\<close> throws; an own property is read; a name that
  neither the object nor \<open>Object.prototype\<close> holds reads as \<open>undefined\<close>; a name that only
  \<open>Object.prototype\<close> holds reads as a function or object of the runtime.
\<close>

definition get_property :: "envref \<Rightarrow> string \<Rightarrow> heap \<Rightarrow> error + expr" where
  "get_property env name h =
     (case env of
        NoObject \<Rightarrow> Inl TypeError
      | Ref r \<Rightarrow>
          (case h r name of
             Some v \<Rightarrow> Inr v
           | None \<Rightarrow> if inherited name then Inl NotModelled else Inr Undefined))"

text \<open>
  \<open>function merge(obj, key, val) { obj[key] = val; return obj; }\<close>

  The write creates or overwrites an own property, except for the key \<open>__proto__\<close> on
  an object that has no own property of that name: there the setter of
  \<open>Object.prototype\<close> runs, which ignores \<open>undefined\<close> and makes a node the prototype of
  the object.
\<close>

definition merge :: "envref \<Rightarrow> string \<Rightarrow> expr \<Rightarrow> heap \<Rightarrow> error + envref \<times> heap" where
  "merge obj key val h =
     (case obj of
        NoObject \<Rightarrow> Inl TypeError
      | Ref r \<Rightarrow>
          if key = ''__proto__'' \<and> h r key = None then
            (if val = Undefined then Inr (Ref r, h) else Inl NotModelled)
          else Inr (Ref r, h(r := (h r)(key \<mapsto> val))))"

text \<open>\<open>node.value\<close>: only \<open>Number\<close> and \<open>Boolean\<close> have the field.\<close>

fun value_of :: "expr \<Rightarrow> error + prim" where
  "value_of Undefined = Inl TypeError"
| "value_of (Number v) = Inr v"
| "value_of (Boolean v) = Inr v"
| "value_of (Variable name) = Inr PUndefined"
| "value_of (Add l r) = Inr PUndefined"
| "value_of (Multiply l r) = Inr PUndefined"
| "value_of (LessThan l r) = Inr PUndefined"

section \<open>Small-step reduction of expressions\<close>

text \<open>\<open>node.reducible()\<close>; the call throws on \<open>undefined\<close>.\<close>

fun reducible_expr :: "expr \<Rightarrow> error + bool" where
  "reducible_expr Undefined = Inl TypeError"
| "reducible_expr (Number v) = Inr False"
| "reducible_expr (Boolean v) = Inr False"
| "reducible_expr (Variable name) = Inr True"
| "reducible_expr (Add l r) = Inr True"
| "reducible_expr (Multiply l r) = Inr True"
| "reducible_expr (LessThan l r) = Inr True"

text \<open>
  \<open>node.reduce(env)\<close>.  \<open>Number\<close> and \<open>Boolean\<close> have no \<open>reduce\<close> method, so the call
  throws, as it does on \<open>undefined\<close>.
\<close>

fun reduce_expr :: "expr \<Rightarrow> envref \<Rightarrow> heap \<Rightarrow> error + expr" where
  "reduce_expr Undefined env h = Inl TypeError"
| "reduce_expr (Number v) env h = Inl TypeError"
| "reduce_expr (Boolean v) env h = Inl TypeError"
| "reduce_expr (Variable name) env h = get_property env name h"
| "reduce_expr (Add l r) env h =
     (case reducible_expr l of
        Inl err \<Rightarrow> Inl err
      | Inr bl \<Rightarrow>
          if bl then
            (case reduce_expr l env h of Inl err \<Rightarrow> Inl err | Inr l' \<Rightarrow> Inr (Add l' r))
          else
            (case reducible_expr r of
               Inl err \<Rightarrow> Inl err
             | Inr br \<Rightarrow>
                 if br then
                   (case reduce_expr r env h of Inl err \<Rightarrow> Inl err | Inr r' \<Rightarrow> Inr (Add l r'))
                 else
                   (case value_of l of
                      Inl err \<Rightarrow> Inl err
                    | Inr a \<Rightarrow>
                        (case value_of r of
                           Inl err \<Rightarrow> Inl err
                         | Inr b \<Rightarrow> Inr (Number (js_plus a b))))))"
| "reduce_expr (Multiply l r) env h =
     (case reducible_expr l of
        Inl err \<Rightarrow> Inl err
      | Inr bl \<Rightarrow>
          if bl then
            (case reduce_expr l env h of Inl err \<Rightarrow> Inl err | Inr l' \<Rightarrow> Inr (Multiply l' r))
          else
            (case reducible_expr r of
               Inl err \<Rightarrow> Inl err
             | Inr br \<Rightarrow>
                 if br then
                   (case reduce_expr r env h of
                      Inl err \<Rightarrow> Inl err
                    | Inr r' \<Rightarrow> Inr (Multiply l r'))
                 else
                   (case value_of l of
                      Inl err \<Rightarrow> Inl err
                    | Inr a \<Rightarrow>
                        (case value_of r of
                           Inl err \<Rightarrow> Inl err
                         | Inr b \<Rightarrow> Inr (Number (js_times a b))))))"
| "reduce_expr (LessThan l r) env h =
     (case reducible_expr l of
        Inl err \<Rightarrow> Inl err
      | Inr bl \<Rightarrow>
          if bl then
            (case reduce_expr l env h of Inl err \<Rightarrow> Inl err | Inr l' \<Rightarrow> Inr (LessThan l' r))
          else
            (case reducible_expr r of
               Inl err \<Rightarrow> Inl err
             | Inr br \<Rightarrow>
                 if br then
                   (case reduce_expr r env h of
                      Inl err \<Rightarrow> Inl err
                    | Inr r' \<Rightarrow> Inr (LessThan l r'))
                 else
                   (case value_of l of
                      Inl err \<Rightarrow> Inl err
                    | Inr a \<Rightarrow>
                        (case value_of r of
                           Inl err \<Rightarrow> Inl err
                         | Inr b \<Rightarrow> Inr (Boolean (js_less a b))))))"

section \<open>Big-step evaluation of expressions\<close>

text \<open>\<open>node.evaluate(env)\<close> on an expression node.\<close>

fun evaluate_expr :: "expr \<Rightarrow> envref \<Rightarrow> heap \<Rightarrow> error + expr" where
  "evaluate_expr Undefined env h = Inl TypeError"
| "evaluate_expr (Number v) env h = Inr (Number v)"
| "evaluate_expr (Boolean v) env h = Inr (Boolean v)"
| "evaluate_expr (Variable name) env h = get_property env name h"
| "evaluate_expr (Add l r) env h =
     (case evaluate_expr l env h of
        Inl err \<Rightarrow> Inl err
      | Inr lv \<Rightarrow>
          (case value_of lv of
             Inl err \<Rightarrow> Inl err
           | Inr a \<Rightarrow>
               (case evaluate_expr r env h of
                  Inl err \<Rightarrow> Inl err
                | Inr rv \<Rightarrow>
                    (case value_of rv of
                       Inl err \<Rightarrow> Inl err
                     | Inr b \<Rightarrow> Inr (Number (js_plus a b))))))"
| "evaluate_expr (Multiply l r) env h =
     (case evaluate_expr l env h of
        Inl err \<Rightarrow> Inl err
      | Inr lv \<Rightarrow>
          (case value_of lv of
             Inl err \<Rightarrow> Inl err
           | Inr a \<Rightarrow>
               (case evaluate_expr r env h of
                  Inl err \<Rightarrow> Inl err
                | Inr rv \<Rightarrow>
                    (case value_of rv of
                       Inl err \<Rightarrow> Inl err
                     | Inr b \<Rightarrow> Inr (Number (js_times a b))))))"
| "evaluate_expr (LessThan l r) env h =
     (case evaluate_expr l env h of
        Inl err \<Rightarrow> Inl err
      | Inr lv \<Rightarrow>
          (case value_of lv of
             Inl err \<Rightarrow> Inl err
           | Inr a \<Rightarrow>
               (case evaluate_expr r env h of
                  Inl err \<Rightarrow> Inl err
                | Inr rv \<Rightarrow>
                    (case value_of rv of
                       Inl err \<Rightarrow> Inl err
                     | Inr b \<Rightarrow> Inr (Boolean (js_less a b))))))"

section \<open>Small-step reduction of statements and the machine\<close>

fun reducible_stmt :: "stmt \<Rightarrow> bool" where
  "reducible_stmt DoNothing = False"
| "reducible_stmt (Assign name e) = True"
| "reducible_stmt (If_node c a b) = True"
| "reducible_stmt (Sequence a b) = True"
| "reducible_stmt (While c b) = True"

text \<open>
  What a statement's \<open>reduce\<close> returns: the array \<open>[statement, env]\<close>, or nothing at all
  when \<open>If.reduce\<close> runs off its end.
\<close>

datatype reduction = NoResult | Reduced stmt envref

text \<open>
  \<open>statement.reduce(env)\<close>.  \<open>DoNothing\<close> has no \<open>reduce\<close> method.  \<open>Sequence.reduce\<close> reads
  \<open>reduced[0]\<close>, which throws when \<open>reduced\<close> is \<open>undefined\<close>.
\<close>

fun reduce_stmt :: "stmt \<Rightarrow> envref \<Rightarrow> heap \<Rightarrow> error + reduction \<times> heap" where
  "reduce_stmt DoNothing env h = Inl TypeError"
| "reduce_stmt (Assign name e) env h =
     (case reducible_expr e of
        Inl err \<Rightarrow> Inl err
      | Inr b \<Rightarrow>
          if b then
            (case reduce_expr e env h of
               Inl err \<Rightarrow> Inl err
             | Inr e' \<Rightarrow> Inr (Reduced (Assign name e') env, h))
          else
            (case merge env name e h of
               Inl err \<Rightarrow> Inl err
             | Inr (env', h') \<Rightarrow> Inr (Reduced DoNothing env', h')))"
| "reduce_stmt (If_node c a b) env h =
     (case reducible_expr c of
        Inl err \<Rightarrow> Inl err
      | Inr bc \<Rightarrow>
          if bc then
            (case reduce_expr c env h of
               Inl err \<Rightarrow> Inl err
             | Inr c' \<Rightarrow> Inr (Reduced (If_node c' a b) env, h))
          else
            (case value_of c of
               Inl err \<Rightarrow> Inl err
             | Inr v \<Rightarrow>
                 if v = PBool True then Inr (Reduced a env, h)
                 else if v = PBool False then Inr (Reduced b env, h)
                 else Inr (NoResult, h)))"
| "reduce_stmt (Sequence a b) env h =
     (if a = DoNothing then Inr (Reduced b env, h)
      else
        (case reduce_stmt a env h of
           Inl err \<Rightarrow> Inl err
         | Inr (NoResult, h') \<Rightarrow> Inl TypeError
         | Inr (Reduced a' env', h') \<Rightarrow> Inr (Reduced (Sequence a' b) env', h')))"
| "reduce_stmt (While c b) env h =
     Inr (Reduced (If_node c (Sequence b (While c b)) DoNothing) env, h)"

text \<open>
  \<open>class Machine extends Struct.new('statement', 'env')\<close>.  \<open>step\<close> reads \<open>reduced[0]\<close> and
  \<open>reduced[1]\<close>; on \<open>undefined\<close> that throws.
\<close>

datatype machine = Machine stmt envref

fun step :: "machine \<Rightarrow> heap \<Rightarrow> error + machine \<times> heap" where
  "step (Machine s env) h =
     (case reduce_stmt s env h of
        Inl err \<Rightarrow> Inl err
      | Inr (NoResult, h') \<Rightarrow> Inl TypeError
      | Inr (Reduced s' env', h') \<Rightarrow> Inr (Machine s' env', h'))"

text \<open>
  \<open>run\<close>: the loop \<open>while (this.statement.reducible()) this.step()\<close>, without its trace
  output.  The loop need not end, so it carries fuel: \<open>None\<close> says that the statement is
  still reducible after \<open>n\<close> steps.
\<close>

fun run :: "nat \<Rightarrow> machine \<Rightarrow> heap \<Rightarrow> (error + machine \<times> heap) option" where
  "run n (Machine s env) h =
     (if reducible_stmt s then
        (case n of
           0 \<Rightarrow> None
         | Suc k \<Rightarrow>
             (case step (Machine s env) h of
                Inl err \<Rightarrow> Some (Inl err)
              | Inr (m', h') \<Rightarrow> run k m' h'))
      else Some (Inr (Machine s env, h)))"

section \<open>Big-step evaluation of statements\<close>

text \<open>
  \<open>statement.evaluate(env)\<close>.  \<open>While.evaluate\<close> calls itself once per iteration and need
  not return; the fuel bounds the number of nested \<open>While\<close> calls, and \<open>None\<close> says that
  it ran out (the limit of the JavaScript call stack is not modelled).  \<open>If.evaluate\<close> and \<open>While.evaluate\<close> run off their end, returning
  \<open>undefined\<close>, when the condition's value is neither \<open>true\<close> nor \<open>false\<close>.
\<close>

fun evaluate_stmt :: "nat \<Rightarrow> stmt \<Rightarrow> envref \<Rightarrow> heap \<Rightarrow> (error + envref \<times> heap) option" where
  "evaluate_stmt n DoNothing env h = Some (Inr (env, h))"
| "evaluate_stmt n (Assign name e) env h =
     (case evaluate_expr e env h of
        Inl err \<Rightarrow> Some (Inl err)
      | Inr v \<Rightarrow> Some (merge env name v h))"
| "evaluate_stmt n (If_node c a b) env h =
     (case evaluate_expr c env h of
        Inl err \<Rightarrow> Some (Inl err)
      | Inr ret \<Rightarrow>
          (case value_of ret of
             Inl err \<Rightarrow> Some (Inl err)
           | Inr v \<Rightarrow>
               if v = PBool True then evaluate_stmt n a env h
               else if v = PBool False then evaluate_stmt n b env h
               else Some (Inr (NoObject, h))))"
| "evaluate_stmt n (Sequence a b) env h =
     (case evaluate_stmt n a env h of
        None \<Rightarrow> None
      | Some (Inl err) \<Rightarrow> Some (Inl err)
      | Some (Inr (env', h')) \<Rightarrow> evaluate_stmt n b env' h')"
| "evaluate_stmt 0 (While c b) env h = None"
| "evaluate_stmt (Suc n) (While c b) env h =
     (case evaluate_expr c env h of
        Inl err \<Rightarrow> Some (Inl err)
      | Inr ret \<Rightarrow>
          (case value_of ret of
             Inl err \<Rightarrow> Some (Inl err)
           | Inr v \<Rightarrow>
               if v = PBool True then
                 (case evaluate_stmt n b env h of
                    None \<Rightarrow> None
                  | Some (Inl err) \<Rightarrow> Some (Inl err)
                  | Some (Inr (env', h')) \<Rightarrow> evaluate_stmt n (While c b) env' h')
               else if v = PBool False then Some (Inr (env, h))
               else Some (Inr (NoObject, h))))"

section \<open>Translation to JavaScript closures\<close>

text \<open>
  \<open>toJs\<close> returns the text of a JavaScript function of one argument \<open>e\<close>, which the
  caller passes to \<open>eval\<close>.  The model gives the function that the text denotes.  The
  samples call these functions on objects whose fields are primitives
  (\<open>{ x: 1 }\<close>, \<open>{ x: false }\<close>), so the objects of compiled code have a store of their own
  kind.
\<close>

type_synonym cobject = "string \<rightharpoonup> prim"
type_synonym cheap = "ref \<Rightarrow> cobject"

type_synonym expr_closure = "envref \<Rightarrow> cheap \<Rightarrow> error + prim"
type_synonym stmt_closure = "nat \<Rightarrow> envref \<Rightarrow> cheap \<Rightarrow> (error + envref \<times> cheap) option"

text \<open>
  \<open>toJs\<close> pastes the name of a variable into the text, as \<open>e.name\<close>.  That text is a
  property access when the name is an identifier (letters, digits, \<open>_\<close> and \<open>$\<close>, no
  digit first); with another name it is some other program (\<open>e.x-1\<close>) or none (\<open>e.1x\<close>).
\<close>

definition identifier_start :: "char \<Rightarrow> bool" where
  "identifier_start c =
     (c \<in> set ''abcdefghijklmnopqrstuvwxyzABCDEFGHIJKLMNOPQRSTUVWXYZ_$'')"

definition identifier_part :: "char \<Rightarrow> bool" where
  "identifier_part c = (identifier_start c \<or> c \<in> set ''0123456789'')"

fun is_identifier :: "string \<Rightarrow> bool" where
  "is_identifier [] = False"
| "is_identifier (c # cs) = (identifier_start c \<and> list_all identifier_part cs)"

text \<open>\<open>e.name\<close>, for an identifier \<open>name\<close>: as \<open>env[name]\<close> above.\<close>

definition get_field :: "envref \<Rightarrow> string \<Rightarrow> cheap \<Rightarrow> error + prim" where
  "get_field e name ch =
     (case e of
        NoObject \<Rightarrow> Inl TypeError
      | Ref r \<Rightarrow>
          (case ch r name of
             Some v \<Rightarrow> Inr v
           | None \<Rightarrow> if inherited name then Inl NotModelled else Inr PUndefined))"

text \<open>
  \<open>e.name = v; return e;\<close>, for an identifier \<open>name\<close> and a primitive \<open>v\<close>.  On an object
  with no own property \<open>__proto__\<close>, the setter of \<open>Object.prototype\<close> ignores the
  primitive.
\<close>

definition set_field :: "envref \<Rightarrow> string \<Rightarrow> prim \<Rightarrow> cheap \<Rightarrow> error + envref \<times> cheap" where
  "set_field e name v ch =
     (case e of
        NoObject \<Rightarrow> Inl TypeError
      | Ref r \<Rightarrow>
          if name = ''__proto__'' \<and> ch r name = None then Inr (Ref r, ch)
          else Inr (Ref r, ch(r := (ch r)(name \<mapsto> v))))"

text \<open>
  \<open>Number.toJs\<close> and \<open>Boolean.toJs\<close> print the \<open>value\<close> field into \<open>return ...\<close>; the text
  printed for a number, \<open>NaN\<close>, \<open>true\<close>, \<open>false\<close> or \<open>undefined\<close> evaluates to that value
  again.  Calling \<open>toJs\<close> on \<open>undefined\<close> throws while the text is being built.  The text of a
  node with a name that is no identifier is not given a meaning.
\<close>

fun toJs_expr :: "expr \<Rightarrow> error + expr_closure" where
  "toJs_expr Undefined = Inl TypeError"
| "toJs_expr (Number v) = Inr (\<lambda>e ch. Inr v)"
| "toJs_expr (Boolean v) = Inr (\<lambda>e ch. Inr v)"
| "toJs_expr (Variable name) =
     (if is_identifier name then Inr (\<lambda>e ch. get_field e name ch) else Inl NotModelled)"
| "toJs_expr (Add l r) =
     (case toJs_expr l of
        Inl err \<Rightarrow> Inl err
      | Inr fl \<Rightarrow>
          (case toJs_expr r of
             Inl err \<Rightarrow> Inl err
           | Inr fr \<Rightarrow>
               Inr (\<lambda>e ch.
                 case fl e ch of
                   Inl err \<Rightarrow> Inl err
                 | Inr a \<Rightarrow> (case fr e ch of Inl err \<Rightarrow> Inl err | Inr b \<Rightarrow> Inr (js_plus a b)))))"
| "toJs_expr (Multiply l r) =
     (case toJs_expr l of
        Inl err \<Rightarrow> Inl err
      | Inr fl \<Rightarrow>
          (case toJs_expr r of
             Inl err \<Rightarrow> Inl err
           | Inr fr \<Rightarrow>
               Inr (\<lambda>e ch.
                 case fl e ch of
                   Inl err \<Rightarrow> Inl err
                 | Inr a \<Rightarrow> (case fr e ch of Inl err \<Rightarrow> Inl err | Inr b \<Rightarrow> Inr (js_times a b)))))"
| "toJs_expr (LessThan l r) =
     (case toJs_expr l of
        Inl err \<Rightarrow> Inl err
      | Inr fl \<Rightarrow>
          (case toJs_expr r of
             Inl err \<Rightarrow> Inl err
           | Inr fr \<Rightarrow>
               Inr (\<lambda>e ch.
                 case fl e ch of
                   Inl err \<Rightarrow> Inl err
                 | Inr a \<Rightarrow> (case fr e ch of Inl err \<Rightarrow> Inl err | Inr b \<Rightarrow> Inr (js_less a b)))))"

text \<open>
  The loop \<open>while (C(e)) { e = B(e); } return e;\<close> of the text \<open>While.toJs\<close> writes.  It
  need not end; the fuel bounds its iterations, and the body runs on what is left.
\<close>

fun js_while :: "expr_closure \<Rightarrow> stmt_closure \<Rightarrow> stmt_closure" where
  "js_while fc fb 0 e ch = None"
| "js_while fc fb (Suc n) e ch =
     (case fc e ch of
        Inl err \<Rightarrow> Some (Inl err)
      | Inr v \<Rightarrow>
          if js_truthy v then
            (case fb n e ch of
               None \<Rightarrow> None
             | Some (Inl err) \<Rightarrow> Some (Inl err)
             | Some (Inr (e', ch')) \<Rightarrow> js_while fc fb n e' ch')
          else Some (Inr (e, ch)))"

fun toJs_stmt :: "stmt \<Rightarrow> error + stmt_closure" where
  "toJs_stmt DoNothing = Inr (\<lambda>n e ch. Some (Inr (e, ch)))"
| "toJs_stmt (Assign name x) =
     (case toJs_expr x of
        Inl err \<Rightarrow> Inl err
      | Inr fx \<Rightarrow>
          if is_identifier name then
            Inr (\<lambda>n e ch.
              case fx e ch of Inl err \<Rightarrow> Some (Inl err) | Inr v \<Rightarrow> Some (set_field e name v ch))
          else Inl NotModelled)"
| "toJs_stmt (If_node c a b) =
     (case toJs_expr c of
        Inl err \<Rightarrow> Inl err
      | Inr fc \<Rightarrow>
          (case toJs_stmt a of
             Inl err \<Rightarrow> Inl err
           | Inr fa \<Rightarrow>
               (case toJs_stmt b of
                  Inl err \<Rightarrow> Inl err
                | Inr fb \<Rightarrow>
                    Inr (\<lambda>n e ch.
                      case fc e ch of
                        Inl err \<Rightarrow> Some (Inl err)
                      | Inr v \<Rightarrow> if js_truthy v then fa n e ch else fb n e ch))))"
| "toJs_stmt (Sequence a b) =
     (case toJs_stmt b of
        Inl err \<Rightarrow> Inl err
      | Inr fb \<Rightarrow>
          (case toJs_stmt a of
             Inl err \<Rightarrow> Inl err
           | Inr fa \<Rightarrow>
               Inr (\<lambda>n e ch.
                 case fa n e ch of
                   None \<Rightarrow> None
                 | Some (Inl err) \<Rightarrow> Some (Inl err)
                 | Some (Inr (e', ch')) \<Rightarrow> fb n e' ch')))"
| "toJs_stmt (While c b) =
     (case toJs_expr c of
        Inl err \<Rightarrow> Inl err
      | Inr fc \<Rightarrow>
          (case toJs_stmt b of Inl err \<Rightarrow> Inl err | Inr fb \<Rightarrow> Inr (js_while fc fb)))"

text \<open>\<open>eval(node.toJs())(env)\<close>\<close>

definition call_compiled_expr :: "expr \<Rightarrow> envref \<Rightarrow> cheap \<Rightarrow> error + prim" where
  "call_compiled_expr x e ch = (case toJs_expr x of Inl err \<Rightarrow> Inl err | Inr f \<Rightarrow> f e ch)"

definition call_compiled_stmt ::
  "nat \<Rightarrow> stmt \<Rightarrow> envref \<Rightarrow> cheap \<Rightarrow> (error + envref \<times> cheap) option" where
  "call_compiled_stmt n s e ch =
     (case toJs_stmt s of Inl err \<Rightarrow> Some (Inl err) | Inr f \<Rightarrow> f n e ch)"

text \<open>A JavaScript value as a caller sees it: a primitive, or a node object.\<close>

datatype jsvalue = Primitive prim | Node expr

text \<open>
  The primitive a node stands for: its \<open>value\<close> field.  An environment of nodes and an
  environment of primitives correspond when each field of the second holds the
  \<open>value\<close> of the node in the first.
\<close>

fun unwrap :: "expr \<Rightarrow> prim" where
  "unwrap (Number v) = v"
| "unwrap (Boolean v) = v"
| "unwrap Undefined = PUndefined"
| "unwrap (Variable name) = PUndefined"
| "unwrap (Add l r) = PUndefined"
| "unwrap (Multiply l r) = PUndefined"
| "unwrap (LessThan l r) = PUndefined"

definition unwrap_object :: "object \<Rightarrow> cobject" where
  "unwrap_object obj = (\<lambda>name. map_option unwrap (obj name))"

definition unwrap_heap :: "heap \<Rightarrow> cheap" where
  "unwrap_heap h = (\<lambda>r. unwrap_object (h r))"

definition unwrap_outcome ::
  "(error + envref \<times> heap) option \<Rightarrow> (error + envref \<times> cheap) option" where
  "unwrap_outcome res = map_option (map_sum id (\<lambda>(env, h). (env, unwrap_heap h))) res"

section \<open>Well-formed programs\<close>

text \<open>
  chapter2.js has no type checker.  The properties that speak of well-typed programs
  are stated for the usual simple types: a number literal holds a number, a boolean
  literal a boolean, the operands of \<open>+\<close>, \<open>*\<close> and \<open><\<close> are numbers, the condition of
  \<open>If\<close> and \<open>While\<close> is a boolean, and an assignment keeps the type of its variable.
  The names of a well-typed program are identifiers other than the names of
  \<open>Object.prototype\<close> (\<open>plain_name\<close>).  At the start, the type of a variable is read off
  the literal that the environment holds for it.
\<close>

definition plain_name :: "string \<Rightarrow> bool" where
  "plain_name name = (is_identifier name \<and> \<not> inherited name)"

datatype ty = TNumber | TBoolean

type_synonym tyenv = "string \<Rightarrow> ty option"

fun literal_type :: "expr \<Rightarrow> ty option" where
  "literal_type (Number v) = (case v of PNum n \<Rightarrow> Some TNumber | _ \<Rightarrow> None)"
| "literal_type (Boolean v) = (case v of PBool b \<Rightarrow> Some TBoolean | _ \<Rightarrow> None)"
| "literal_type Undefined = None"
| "literal_type (Variable name) = None"
| "literal_type (Add l r) = None"
| "literal_type (Multiply l r) = None"
| "literal_type (LessThan l r) = None"

definition tyenv_of :: "object \<Rightarrow> tyenv" where
  "tyenv_of obj = (\<lambda>name. case obj name of None \<Rightarrow> None | Some v \<Rightarrow> literal_type v)"

fun expr_type :: "tyenv \<Rightarrow> expr \<Rightarrow> ty option" where
  "expr_type G Undefined = None"
| "expr_type G (Number v) = literal_type (Number v)"
| "expr_type G (Boolean v) = literal_type (Boolean v)"
| "expr_type G (Variable name) = (if plain_name name then G name else None)"
| "expr_type G (Add l r) =
     (if expr_type G l = Some TNumber \<and> expr_type G r = Some TNumber then Some TNumber
      else None)"
| "expr_type G (Multiply l r) =
     (if expr_type G l = Some TNumber \<and> expr_type G r = Some TNumber then Some TNumber
      else None)"
| "expr_type G (LessThan l r) =
     (if expr_type G l = Some TNumber \<and> expr_type G r = Some TNumber then Some TBoolean
      else None)"

text \<open>
  Statements are typed in the order they run: an assignment gives its variable the type
  of its expression (a variable that has a type keeps it), and what follows is typed
  under the new assumptions.  After an \<open>If\<close>, what both branches agree on is known;
  after a \<open>While\<close>, what was known before it.  \<open>stmt_type G s\<close> is \<open>None\<close> when \<open>s\<close> is
  ill-typed under \<open>G\<close>, and otherwise what is known after \<open>s\<close>.
\<close>

fun stmt_type :: "tyenv \<Rightarrow> stmt \<Rightarrow> tyenv option" where
  "stmt_type G DoNothing = Some G"
| "stmt_type G (Assign name e) =
     (case expr_type G e of
        None \<Rightarrow> None
      | Some t \<Rightarrow>
          if plain_name name \<and> (G name = None \<or> G name = Some t) then Some (G(name \<mapsto> t))
          else None)"
| "stmt_type G (If_node c a b) =
     (if expr_type G c = Some TBoolean then
        (case stmt_type G a of
           None \<Rightarrow> None
         | Some Ga \<Rightarrow>
             (case stmt_type G b of
                None \<Rightarrow> None
              | Some Gb \<Rightarrow> Some (\<lambda>name. if Ga name = Gb name then Ga name else None)))
      else None)"
| "stmt_type G (Sequence a b) =
     (case stmt_type G a of None \<Rightarrow> None | Some G' \<Rightarrow> stmt_type G' b)"
| "stmt_type G (While c b) =
     (if expr_type G c = Some TBoolean then
        (case stmt_type G b of None \<Rightarrow> None | Some G' \<Rightarrow> Some G)
      else None)"

definition stmt_ok :: "tyenv \<Rightarrow> stmt \<Rightarrow> bool" where
  "stmt_ok G s = (stmt_type G s \<noteq> None)"

section \<open>Closed expressions and environments of literals\<close>

fun literal :: "expr \<Rightarrow> bool" where
  "literal (Number v) = True"
| "literal (Boolean v) = True"
| "literal Undefined = False"
| "literal (Variable name) = False"
| "literal (Add l r) = False"
| "literal (Multiply l r) = False"
| "literal (LessThan l r) = False"

text \<open>
  \<open>closed_in obj e\<close>: \<open>e\<close> is built from the six expression classes, and the environment
  object binds each of its variables to a \<open>Number\<close> or \<open>Boolean\<close> node.
\<close>

fun closed_in :: "object \<Rightarrow> expr \<Rightarrow> bool" where
  "closed_in obj Undefined = False"
| "closed_in obj (Number v) = True"
| "closed_in obj (Boolean v) = True"
| "closed_in obj (Variable name) = (case obj name of None \<Rightarrow> False | Some v \<Rightarrow> literal v)"
| "closed_in obj (Add l r) = (closed_in obj l \<and> closed_in obj r)"
| "closed_in obj (Multiply l r) = (closed_in obj l \<and> closed_in obj r)"
| "closed_in obj (LessThan l r) = (closed_in obj l \<and> closed_in obj r)"

text \<open>The values of an environment are literal nodes (the spec's data model).\<close>

definition literal_object :: "object \<Rightarrow> bool" where
  "literal_object obj = (\<forall>name. case obj name of None \<Rightarrow> True | Some v \<Rightarrow> literal v)"

text \<open>The number of \<open>reduce\<close> calls that bring a closed expression to a literal.\<close>

fun redexes :: "expr \<Rightarrow> nat" where
  "redexes Undefined = 0"
| "redexes (Number v) = 0"
| "redexes (Boolean v) = 0"
| "redexes (Variable name) = 1"
| "redexes (Add l r) = Suc (redexes l + redexes r)"
| "redexes (Multiply l r) = Suc (redexes l + redexes r)"
| "redexes (LessThan l r) = Suc (redexes l + redexes r)"

text \<open>
  The iteration that the reduce-to-evaluate property speaks of, in the spec's words:
  apply \<open>reduce\<close> to the expression until \<open>reducible()\<close> is false.  chapter2.js has no
  driver for expressions (its \<open>Machine\<close> runs statements); \<open>None\<close> says that the
  expression is still reducible after \<open>n\<close> reductions.
\<close>

fun reduce_until_irreducible ::
  "nat \<Rightarrow> expr \<Rightarrow> envref \<Rightarrow> heap \<Rightarrow> (error + expr) option" where
  "reduce_until_irreducible n e env h =
     (case reducible_expr e of
        Inl err \<Rightarrow> Some (Inl err)
      | Inr b \<Rightarrow>
          if b then
            (case n of
               0 \<Rightarrow> None
             | Suc k \<Rightarrow>
                 (case reduce_expr e env h of
                    Inl err \<Rightarrow> Some (Inl err)
                  | Inr e' \<Rightarrow> reduce_until_irreducible k e' env h))
          else Some (Inr e))"

text \<open>The store of the examples: every object empty.\<close>

definition empty_heap :: heap where
  "empty_heap = (\<lambda>r. Map.empty)"

definition empty_cheap :: cheap where
  "empty_cheap = (\<lambda>r. Map.empty)"

text \<open>
  The loop of the samples of chapter2.js: \<open>while (x < 5) { x = x * 3 }\<close>.
\<close>

definition sample_while :: stmt where
  "sample_while =
     While (LessThan (Variable ''x'') (Number (PNum 5)))
       (Assign ''x'' (Multiply (Variable ''x'') (Number (PNum 3))))"

text \<open>
  The conditional of the samples: \<open>if (x) { y = 1 } else { y = 2 }\<close>.
\<close>

definition sample_if :: stmt where
  "sample_if =
     If_node (Variable ''x'') (Assign ''y'' (Number (PNum 1))) (Assign ''y'' (Number (PNum 2)))"

section \<open>Auxiliary facts\<close>

subsection \<open>Literals and closed expressions\<close>

lemma literal_cases: "literal v \<Longrightarrow> (\<exists>p. v = Number p) \<or> (\<exists>p. v = Boolean p)"
  by (cases v) auto

lemma literal_irreducible: "literal v \<Longrightarrow> reducible_expr v = Inr False"
  by (cases v) auto

lemma literal_evaluate: "literal v \<Longrightarrow> evaluate_expr v env h = Inr v"
  by (cases v) auto

lemma literal_value_of: "literal v \<Longrightarrow> \<exists>p. value_of v = Inr p"
  by (cases v) auto

lemma closed_in_reducible:
  "closed_in obj e \<Longrightarrow> reducible_expr e = Inr (\<not> literal e)"
  by (cases e) auto

lemma closed_in_evaluate:
  "closed_in (h r) e \<Longrightarrow> \<exists>v. evaluate_expr e (Ref r) h = Inr v \<and> literal v"
proof (induction e)
  case (Variable name)
  then show ?case by (auto simp: get_property_def split: option.splits)
next
  case (Add l r')
  then obtain lv rv where "evaluate_expr l (Ref r) h = Inr lv" "literal lv"
    "evaluate_expr r' (Ref r) h = Inr rv" "literal rv" by auto
  then show ?case using literal_value_of[of lv] literal_value_of[of rv] by auto
next
  case (Multiply l r')
  then obtain lv rv where "evaluate_expr l (Ref r) h = Inr lv" "literal lv"
    "evaluate_expr r' (Ref r) h = Inr rv" "literal rv" by auto
  then show ?case using literal_value_of[of lv] literal_value_of[of rv] by auto
next
  case (LessThan l r')
  then obtain lv rv where "evaluate_expr l (Ref r) h = Inr lv" "literal lv"
    "evaluate_expr r' (Ref r) h = Inr rv" "literal rv" by auto
  then show ?case using literal_value_of[of lv] literal_value_of[of rv] by auto
qed auto

lemma reduce_expr_closed:
  "closed_in (h r) e \<Longrightarrow> \<not> literal e \<Longrightarrow>
   \<exists>e'. reduce_expr e (Ref r) h = Inr e' \<and> closed_in (h r) e' \<and>
        evaluate_expr e' (Ref r) h = evaluate_expr e (Ref r) h \<and> redexes e' < redexes e"
proof (induction e)
  case (Variable name)
  then show ?case
    by (auto simp: get_property_def literal_evaluate split: option.splits dest: literal_cases)
next
  case (Add l r')
  then show ?case
    by (cases "literal l"; cases "literal r'")
       (auto simp: closed_in_reducible literal_evaluate dest!: literal_cases)
next
  case (Multiply l r')
  then show ?case
    by (cases "literal l"; cases "literal r'")
       (auto simp: closed_in_reducible literal_evaluate dest!: literal_cases)
next
  case (LessThan l r')
  then show ?case
    by (cases "literal l"; cases "literal r'")
       (auto simp: closed_in_reducible literal_evaluate dest!: literal_cases)
qed auto

lemma reduce_until_evaluate:
  "closed_in (h r) e \<Longrightarrow> redexes e \<le> n \<Longrightarrow>
   reduce_until_irreducible n e (Ref r) h = Some (evaluate_expr e (Ref r) h)"
proof (induction n arbitrary: e)
  case 0
  then have "literal e" by (cases e) auto
  then show ?case by (simp add: literal_irreducible literal_evaluate)
next
  case (Suc n)
  show ?case
  proof (cases "literal e")
    case True
    then show ?thesis by (simp add: literal_irreducible literal_evaluate)
  next
    case False
    from reduce_expr_closed[of h r e] Suc.prems(1) False obtain e' where
      e': "reduce_expr e (Ref r) h = Inr e'" "closed_in (h r) e'"
      "evaluate_expr e' (Ref r) h = evaluate_expr e (Ref r) h" "redexes e' < redexes e"
      by blast
    then have "redexes e' \<le> n" using Suc.prems(2) by simp
    from Suc.IH[of e'] e'(2) this e' False Suc.prems(1)
    show ?thesis by (simp add: closed_in_reducible)
  qed
qed

lemma literal_type_literal: "literal_type v = Some t \<Longrightarrow> literal v"
  by (cases v) auto

lemma expr_type_closed:
  "expr_type (tyenv_of obj) e = Some t \<Longrightarrow> closed_in obj e"
  by (induction e arbitrary: t)
     (auto simp: tyenv_of_def split: option.splits if_splits prim.splits
           dest: literal_type_literal)

subsection \<open>More fuel never changes a result of \<open>evaluate\<close>\<close>

lemma evaluate_stmt_mono:
  "evaluate_stmt n s env h = Some res \<Longrightarrow> n \<le> m \<Longrightarrow> evaluate_stmt m s env h = Some res"
proof (induction n s env h arbitrary: m res rule: evaluate_stmt.induct)
  case (1 n env h)
  then show ?case by simp
next
  case (2 n name e env h)
  then show ?case by simp
next
  case (3 n c a b env h)
  show ?case
  proof (cases "evaluate_expr c env h")
    case (Inl err)
    with "3.prems" show ?thesis by simp
  next
    case (Inr ret)
    show ?thesis
    proof (cases "value_of ret")
      case (Inl err)
      with Inr "3.prems" show ?thesis by simp
    next
      case v: (Inr v)
      consider "v = PBool True" | "v = PBool False" | "v \<noteq> PBool True" "v \<noteq> PBool False"
        by blast
      then show ?thesis
      proof cases
        case 1
        with Inr v "3.prems" have "evaluate_stmt n a env h = Some res" by simp
        from "3.IH"(1)[OF Inr v 1 this "3.prems"(2)] Inr v 1 show ?thesis by simp
      next
        case 2
        with Inr v "3.prems" have "evaluate_stmt n b env h = Some res" by simp
        from "3.IH"(2)[OF Inr v _ 2 this "3.prems"(2)] Inr v 2 show ?thesis by simp
      next
        case 3
        with Inr v "3.prems" show ?thesis by simp
      qed
    qed
  qed
next
  case (4 n a b env h)
  show ?case
  proof (cases "evaluate_stmt n a env h")
    case None
    with "4.prems" show ?thesis by simp
  next
    case (Some ra)
    note IHa = "4.IH"(1)[OF Some "4.prems"(2)]
    show ?thesis
    proof (cases ra)
      case (Inl err)
      with Some "4.prems" have "res = Inl err" by simp
      with IHa Inl show ?thesis by simp
    next
      case (Inr p)
      obtain env' h' where p: "p = (env', h')" by (cases p)
      from Some Inr p "4.prems"(1) have "evaluate_stmt n b env' h' = Some res" by simp
      from "4.IH"(2)[OF Some Inr p[symmetric] this "4.prems"(2)] IHa Inr p
      show ?thesis by simp
    qed
  qed
next
  case (5 c b env h)
  then show ?case by simp
next
  case (6 n c b env h)
  from "6.prems"(2) obtain k where m: "m = Suc k" and nk: "n \<le> k" by (cases m) auto
  show ?case unfolding m
  proof (cases "evaluate_expr c env h")
    case (Inl err)
    with "6.prems" show "evaluate_stmt (Suc k) (While c b) env h = Some res" by simp
  next
    case (Inr ret)
    show "evaluate_stmt (Suc k) (While c b) env h = Some res"
    proof (cases "value_of ret")
      case (Inl err)
      with Inr "6.prems" show ?thesis by simp
    next
      case v: (Inr v)
      show ?thesis
      proof (cases "v = PBool True")
        case True
        show ?thesis
        proof (cases "evaluate_stmt n b env h")
          case None
          with Inr v True "6.prems" show ?thesis by simp
        next
          case (Some rb)
          note IHb = "6.IH"(1)[OF Inr v True Some nk]
          show ?thesis
          proof (cases rb)
            case (Inl err)
            with Some Inr v True "6.prems" have "res = Inl err" by simp
            with IHb Inl Inr v True show ?thesis by simp
          next
            case rb: (Inr p)
            obtain env' h' where p: "p = (env', h')" by (cases p)
            from Some rb p Inr v True "6.prems"(1)
            have "evaluate_stmt n (While c b) env' h' = Some res" by simp
            from "6.IH"(2)[OF Inr v True Some rb p[symmetric] this nk] IHb rb p Inr v True
            show ?thesis by simp
          qed
        qed
      next
        case False
        with Inr v "6.prems" show ?thesis by simp
      qed
    qed
  qed
qed

subsection \<open>A reduction step keeps the result of \<open>evaluate\<close>\<close>

lemma irreducible_literal: "reducible_expr x = Inr False \<Longrightarrow> literal x"
  by (cases x) auto

lemma evaluate_Add_InrE:
  assumes "evaluate_expr (Add l r) env h = Inr v"
  obtains lv a rv b where "evaluate_expr l env h = Inr lv" "value_of lv = Inr a"
    "evaluate_expr r env h = Inr rv" "value_of rv = Inr b" "v = Number (js_plus a b)"
  using assms by (auto split: sum.splits)

lemma evaluate_Multiply_InrE:
  assumes "evaluate_expr (Multiply l r) env h = Inr v"
  obtains lv a rv b where "evaluate_expr l env h = Inr lv" "value_of lv = Inr a"
    "evaluate_expr r env h = Inr rv" "value_of rv = Inr b" "v = Number (js_times a b)"
  using assms by (auto split: sum.splits)

lemma evaluate_LessThan_InrE:
  assumes "evaluate_expr (LessThan l r) env h = Inr v"
  obtains lv a rv b where "evaluate_expr l env h = Inr lv" "value_of lv = Inr a"
    "evaluate_expr r env h = Inr rv" "value_of rv = Inr b" "v = Boolean (js_less a b)"
  using assms by (auto split: sum.splits)

lemma literal_object_lookup:
  "literal_object obj \<Longrightarrow> obj name = Some v \<Longrightarrow> literal v"
  unfolding literal_object_def by (erule allE[of _ name]) simp

lemma reduce_expr_evaluate:
  "literal_object (h r) \<Longrightarrow> reduce_expr e (Ref r) h = Inr e' \<Longrightarrow>
   evaluate_expr e' (Ref r) h = Inr v \<Longrightarrow> evaluate_expr e (Ref r) h = Inr v"
proof (induction e arbitrary: e' v)
  case (Variable name)
  show ?case
  proof (cases "h r name")
    case None
    with Variable.prems show ?thesis by (simp add: get_property_def split: if_splits)
  next
    case (Some w)
    with Variable.prems(1) have "literal w" by (rule literal_object_lookup)
    with Some Variable.prems(2,3) show ?thesis
      by (simp add: get_property_def literal_evaluate)
  qed
next
  case (Add l r2)
  from Add.prems(2) obtain bl where bl: "reducible_expr l = Inr bl"
    by (cases "reducible_expr l") auto
  show ?case
  proof (cases bl)
    case True
    with bl Add.prems(2) obtain l' where l': "reduce_expr l (Ref r) h = Inr l'" "e' = Add l' r2"
      by (cases "reduce_expr l (Ref r) h") auto
    from Add.prems(3)[unfolded l'(2)] obtain lv a rv b where
      ev: "evaluate_expr l' (Ref r) h = Inr lv" "value_of lv = Inr a"
      "evaluate_expr r2 (Ref r) h = Inr rv" "value_of rv = Inr b" "v = Number (js_plus a b)"
      by (rule evaluate_Add_InrE)
    from Add.IH(1)[OF Add.prems(1) l'(1) ev(1)] ev show ?thesis by simp
  next
    case False
    with bl have ll: "literal l" by (simp add: irreducible_literal)
    from False bl Add.prems(2) obtain br where br: "reducible_expr r2 = Inr br"
      by (cases "reducible_expr r2") auto
    show ?thesis
    proof (cases br)
      case True
      with False bl br Add.prems(2) obtain r' where
        r': "reduce_expr r2 (Ref r) h = Inr r'" "e' = Add l r'"
        by (cases "reduce_expr r2 (Ref r) h") auto
      from Add.prems(3)[unfolded r'(2)] obtain lv a rv b where
        ev: "evaluate_expr l (Ref r) h = Inr lv" "value_of lv = Inr a"
        "evaluate_expr r' (Ref r) h = Inr rv" "value_of rv = Inr b" "v = Number (js_plus a b)"
        by (rule evaluate_Add_InrE)
      from Add.IH(2)[OF Add.prems(1) r'(1) ev(3)] ev show ?thesis by simp
    next
      case br_False: False
      with br have lr: "literal r2" by (simp add: irreducible_literal)
      from ll lr obtain a b where ab: "value_of l = Inr a" "value_of r2 = Inr b"
        using literal_value_of by blast
      with False br_False bl br Add.prems(2) have "e' = Number (js_plus a b)" by simp
      with Add.prems(3) ab ll lr show ?thesis by (simp add: literal_evaluate)
    qed
  qed
next
  case (Multiply l r2)
  from Multiply.prems(2) obtain bl where bl: "reducible_expr l = Inr bl"
    by (cases "reducible_expr l") auto
  show ?case
  proof (cases bl)
    case True
    with bl Multiply.prems(2) obtain l' where
      l': "reduce_expr l (Ref r) h = Inr l'" "e' = Multiply l' r2"
      by (cases "reduce_expr l (Ref r) h") auto
    from Multiply.prems(3)[unfolded l'(2)] obtain lv a rv b where
      ev: "evaluate_expr l' (Ref r) h = Inr lv" "value_of lv = Inr a"
      "evaluate_expr r2 (Ref r) h = Inr rv" "value_of rv = Inr b" "v = Number (js_times a b)"
      by (rule evaluate_Multiply_InrE)
    from Multiply.IH(1)[OF Multiply.prems(1) l'(1) ev(1)] ev show ?thesis by simp
  next
    case False
    with bl have ll: "literal l" by (simp add: irreducible_literal)
    from False bl Multiply.prems(2) obtain br where br: "reducible_expr r2 = Inr br"
      by (cases "reducible_expr r2") auto
    show ?thesis
    proof (cases br)
      case True
      with False bl br Multiply.prems(2) obtain r' where
        r': "reduce_expr r2 (Ref r) h = Inr r'" "e' = Multiply l r'"
        by (cases "reduce_expr r2 (Ref r) h") auto
      from Multiply.prems(3)[unfolded r'(2)] obtain lv a rv b where
        ev: "evaluate_expr l (Ref r) h = Inr lv" "value_of lv = Inr a"
        "evaluate_expr r' (Ref r) h = Inr rv" "value_of rv = Inr b" "v = Number (js_times a b)"
        by (rule evaluate_Multiply_InrE)
      from Multiply.IH(2)[OF Multiply.prems(1) r'(1) ev(3)] ev show ?thesis by simp
    next
      case br_False: False
      with br have lr: "literal r2" by (simp add: irreducible_literal)
      from ll lr obtain a b where ab: "value_of l = Inr a" "value_of r2 = Inr b"
        using literal_value_of by blast
      with False br_False bl br Multiply.prems(2) have "e' = Number (js_times a b)" by simp
      with Multiply.prems(3) ab ll lr show ?thesis by (simp add: literal_evaluate)
    qed
  qed
next
  case (LessThan l r2)
  from LessThan.prems(2) obtain bl where bl: "reducible_expr l = Inr bl"
    by (cases "reducible_expr l") auto
  show ?case
  proof (cases bl)
    case True
    with bl LessThan.prems(2) obtain l' where
      l': "reduce_expr l (Ref r) h = Inr l'" "e' = LessThan l' r2"
      by (cases "reduce_expr l (Ref r) h") auto
    from LessThan.prems(3)[unfolded l'(2)] obtain lv a rv b where
      ev: "evaluate_expr l' (Ref r) h = Inr lv" "value_of lv = Inr a"
      "evaluate_expr r2 (Ref r) h = Inr rv" "value_of rv = Inr b" "v = Boolean (js_less a b)"
      by (rule evaluate_LessThan_InrE)
    from LessThan.IH(1)[OF LessThan.prems(1) l'(1) ev(1)] ev show ?thesis by simp
  next
    case False
    with bl have ll: "literal l" by (simp add: irreducible_literal)
    from False bl LessThan.prems(2) obtain br where br: "reducible_expr r2 = Inr br"
      by (cases "reducible_expr r2") auto
    show ?thesis
    proof (cases br)
      case True
      with False bl br LessThan.prems(2) obtain r' where
        r': "reduce_expr r2 (Ref r) h = Inr r'" "e' = LessThan l r'"
        by (cases "reduce_expr r2 (Ref r) h") auto
      from LessThan.prems(3)[unfolded r'(2)] obtain lv a rv b where
        ev: "evaluate_expr l (Ref r) h = Inr lv" "value_of lv = Inr a"
        "evaluate_expr r' (Ref r) h = Inr rv" "value_of rv = Inr b" "v = Boolean (js_less a b)"
        by (rule evaluate_LessThan_InrE)
      from LessThan.IH(2)[OF LessThan.prems(1) r'(1) ev(3)] ev show ?thesis by simp
    next
      case br_False: False
      with br have lr: "literal r2" by (simp add: irreducible_literal)
      from ll lr obtain a b where ab: "value_of l = Inr a" "value_of r2 = Inr b"
        using literal_value_of by blast
      with False br_False bl br LessThan.prems(2) have "e' = Boolean (js_less a b)" by simp
      with LessThan.prems(3) ab ll lr show ?thesis by (simp add: literal_evaluate)
    qed
  qed
qed simp_all

lemma merge_literal:
  "merge (Ref r) name e h = Inr (env', h') \<Longrightarrow> literal e \<Longrightarrow>
   env' = Ref r \<and> h' = h(r := (h r)(name \<mapsto> e))"
  by (auto simp: merge_def split: if_splits)

lemma literal_object_update:
  "literal_object obj \<Longrightarrow> literal v \<Longrightarrow> literal_object (obj(name \<mapsto> v))"
  unfolding literal_object_def by (auto split: option.splits)

lemma reduce_stmt_evaluate:
  "literal_object (h r) \<Longrightarrow> reduce_stmt s (Ref r) h = Inr (Reduced s' env', h') \<Longrightarrow>
   env' = Ref r \<and> literal_object (h' r) \<and>
   (\<forall>k q. evaluate_stmt k s' (Ref r) h' = Some (Inr q) \<longrightarrow>
      evaluate_stmt (Suc k) s (Ref r) h = Some (Inr q))"
proof (induction s arbitrary: s' env' h')
  case DoNothing
  then show ?case by simp
next
  case (Assign name e)
  from Assign.prems(2) obtain b where b: "reducible_expr e = Inr b"
    by (cases "reducible_expr e") auto
  show ?case
  proof (cases b)
    case True
    with b Assign.prems(2) obtain e' where
      e': "reduce_expr e (Ref r) h = Inr e'" "s' = Assign name e'" "env' = Ref r" "h' = h"
      by (cases "reduce_expr e (Ref r) h") auto
    have "evaluate_stmt (Suc k) (Assign name e) (Ref r) h = Some (Inr q)"
      if "evaluate_stmt k (Assign name e') (Ref r) h = Some (Inr q)" for k q
    proof -
      from that obtain v where v: "evaluate_expr e' (Ref r) h = Inr v"
        by (cases "evaluate_expr e' (Ref r) h") auto
      from reduce_expr_evaluate[OF Assign.prems(1) e'(1) v] v that show ?thesis by simp
    qed
    with e' Assign.prems(1) show ?thesis by blast
  next
    case False
    with b have lit: "literal e" by (simp add: irreducible_literal)
    from False b Assign.prems(2) have
      m: "merge (Ref r) name e h = Inr (env', h')" and s': "s' = DoNothing"
      by (auto split: sum.splits)
    from merge_literal[OF m lit] have
      eh: "env' = Ref r" "h' = h(r := (h r)(name \<mapsto> e))" by simp_all
    from lit Assign.prems(1) have "literal_object (h' r)"
      unfolding eh(2) by (simp add: literal_object_update)
    moreover have "evaluate_stmt (Suc k) (Assign name e) (Ref r) h = Some (Inr q)"
      if "evaluate_stmt k DoNothing (Ref r) h' = Some (Inr q)" for k q
      using that lit m eh(1) by (simp add: literal_evaluate)
    ultimately show ?thesis using s' eh(1) by blast
  qed
next
  case (If_node c a b)
  from If_node.prems(2) obtain bc where bc: "reducible_expr c = Inr bc"
    by (cases "reducible_expr c") auto
  show ?case
  proof (cases bc)
    case True
    with bc If_node.prems(2) obtain c' where
      c': "reduce_expr c (Ref r) h = Inr c'" "s' = If_node c' a b" "env' = Ref r" "h' = h"
      by (cases "reduce_expr c (Ref r) h") auto
    have "evaluate_stmt (Suc k) (If_node c a b) (Ref r) h = Some (Inr q)"
      if "evaluate_stmt k (If_node c' a b) (Ref r) h = Some (Inr q)" for k q
    proof -
      from that obtain v where v: "evaluate_expr c' (Ref r) h = Inr v"
        by (cases "evaluate_expr c' (Ref r) h") auto
      note cv = reduce_expr_evaluate[OF If_node.prems(1) c'(1) v]
      from that v cv have "evaluate_stmt k (If_node c a b) (Ref r) h = Some (Inr q)" by simp
      then show ?thesis by (rule evaluate_stmt_mono) simp
    qed
    with c' If_node.prems(1) show ?thesis by blast
  next
    case False
    with bc have lit: "literal c" by (simp add: irreducible_literal)
    then obtain v where v: "value_of c = Inr v" using literal_value_of by blast
    from If_node.prems(2) bc False v have
      s': "(v = PBool True \<and> s' = a) \<or> (v = PBool False \<and> s' = b)" "env' = Ref r" "h' = h"
      by (auto split: if_splits)
    have "evaluate_stmt (Suc k) (If_node c a b) (Ref r) h = Some (Inr q)"
      if "evaluate_stmt k s' (Ref r) h = Some (Inr q)" for k q
    proof -
      from s'(1) that lit v have "evaluate_stmt k (If_node c a b) (Ref r) h = Some (Inr q)"
        by (auto simp: literal_evaluate)
      then show ?thesis by (rule evaluate_stmt_mono) simp
    qed
    with s' If_node.prems(1) show ?thesis by blast
  qed
next
  case (Sequence a b)
  show ?case
  proof (cases "a = DoNothing")
    case True
    with Sequence.prems(2) have s': "s' = b" "env' = Ref r" "h' = h" by auto
    have "evaluate_stmt (Suc k) (Sequence a b) (Ref r) h = Some (Inr q)"
      if "evaluate_stmt k b (Ref r) h = Some (Inr q)" for k q
    proof -
      from that have "evaluate_stmt (Suc k) b (Ref r) h = Some (Inr q)"
        by (rule evaluate_stmt_mono) simp
      with True show ?thesis by simp
    qed
    with s' Sequence.prems(1) show ?thesis by blast
  next
    case False
    with Sequence.prems(2) obtain a' where
      a': "reduce_stmt a (Ref r) h = Inr (Reduced a' env', h')" "s' = Sequence a' b"
      by (auto split: sum.splits reduction.splits)
    note IH = Sequence.IH(1)[OF Sequence.prems(1) a'(1)]
    have "evaluate_stmt (Suc k) (Sequence a b) (Ref r) h = Some (Inr q)"
      if "evaluate_stmt k (Sequence a' b) (Ref r) h' = Some (Inr q)" for k q
    proof -
      from that obtain env2 h2 where
        ea: "evaluate_stmt k a' (Ref r) h' = Some (Inr (env2, h2))"
        and eb: "evaluate_stmt k b env2 h2 = Some (Inr q)"
        by (auto split: option.splits sum.splits)
      from IH ea have "evaluate_stmt (Suc k) a (Ref r) h = Some (Inr (env2, h2))" by blast
      moreover from eb have "evaluate_stmt (Suc k) b env2 h2 = Some (Inr q)"
        by (rule evaluate_stmt_mono) simp
      ultimately show ?thesis by simp
    qed
    with IH a'(2) show ?thesis by blast
  qed
next
  case (While c b)
  from While.prems(2) have
    s': "s' = If_node c (Sequence b (While c b)) DoNothing" "env' = Ref r" "h' = h" by auto
  have "evaluate_stmt (Suc k) (While c b) (Ref r) h = Some (Inr q)"
    if "evaluate_stmt k (If_node c (Sequence b (While c b)) DoNothing) (Ref r) h = Some (Inr q)"
    for k q
    using that by (auto split: sum.splits if_splits)
  with s' While.prems(1) show ?case by blast
qed

lemma run_evaluate:
  "literal_object (h r) \<Longrightarrow> run n (Machine s (Ref r)) h = Some (Inr (Machine s' env', h')) \<Longrightarrow>
   evaluate_stmt n s (Ref r) h = Some (Inr (env', h'))"
proof (induction n arbitrary: s h)
  case 0
  then show ?case by (cases s) auto
next
  case (Suc n)
  show ?case
  proof (cases "reducible_stmt s")
    case False
    with Suc.prems show ?thesis by (cases s) auto
  next
    case True
    with Suc.prems(2) obtain s1 env1 h1 where
      st: "reduce_stmt s (Ref r) h = Inr (Reduced s1 env1, h1)"
      and rn: "run n (Machine s1 env1) h1 = Some (Inr (Machine s' env', h'))"
      by (auto split: sum.splits reduction.splits)
    from reduce_stmt_evaluate[OF Suc.prems(1) st] have
      1: "env1 = Ref r" "literal_object (h1 r)"
      "\<And>k q. evaluate_stmt k s1 (Ref r) h1 = Some (Inr q) \<Longrightarrow>
        evaluate_stmt (Suc k) s (Ref r) h = Some (Inr q)"
      by blast+
    from Suc.IH[OF 1(2) rn[unfolded 1(1)]] show ?thesis by (rule 1(3))
  qed
qed

lemma run_final:
  "run n (Machine s env) h = Some (Inr (Machine s' env', h')) \<Longrightarrow> s' = DoNothing"
proof (induction n arbitrary: s env h)
  case 0
  then show ?case by (cases s) auto
next
  case (Suc n)
  show ?case
  proof (cases "reducible_stmt s")
    case False
    with Suc.prems show ?thesis by (cases s) auto
  next
    case True
    with Suc.prems obtain s1 env1 h1 where
      "run n (Machine s1 env1) h1 = Some (Inr (Machine s' env', h'))"
      by (auto split: sum.splits reduction.splits)
    then show ?thesis by (rule Suc.IH)
  qed
qed

subsection \<open>Compiled closures on well-typed programs\<close>

lemma literal_type_TNumber: "literal_type v = Some TNumber \<Longrightarrow> \<exists>n. v = Number (PNum n)"
  by (cases v) (auto split: prim.splits)

lemma literal_type_TBoolean: "literal_type v = Some TBoolean \<Longrightarrow> \<exists>b. v = Boolean (PBool b)"
  by (cases v) (auto split: prim.splits)

lemma tyenv_of_lookup:
  "tyenv_of obj name = Some t \<Longrightarrow> \<exists>v. obj name = Some v \<and> literal_type v = Some t"
  by (auto simp: tyenv_of_def split: option.splits)

lemma unwrap_heap_update:
  "unwrap_heap (h(r := (h r)(name \<mapsto> v))) =
   (unwrap_heap h)(r := (unwrap_heap h r)(name \<mapsto> unwrap v))"
  by (auto simp: unwrap_heap_def unwrap_object_def fun_eq_iff)

lemma get_field_unwrap:
  "h r name = Some v \<Longrightarrow> get_field (Ref r) name (unwrap_heap h) = Inr (unwrap v)"
  by (simp add: get_field_def unwrap_heap_def unwrap_object_def)

lemma compiled_expr_typed:
  "G \<subseteq>\<^sub>m tyenv_of (h r) \<Longrightarrow> expr_type G e = Some t \<Longrightarrow>
   \<exists>f v. toJs_expr e = Inr f \<and> evaluate_expr e (Ref r) h = Inr v \<and>
         literal_type v = Some t \<and> f (Ref r) (unwrap_heap h) = Inr (unwrap v)"
proof (induction e arbitrary: t)
  case Undefined
  then show ?case by simp
next
  case (Number p)
  then show ?case by (cases p) auto
next
  case (Boolean p)
  then show ?case by (cases p) auto
next
  case (Variable name)
  then have g: "G name = Some t" and ident: "is_identifier name"
    by (auto simp: plain_name_def split: if_splits)
  from g Variable.prems(1) have "tyenv_of (h r) name = Some t"
    by (auto simp: map_le_def dom_def)
  then obtain v where "h r name = Some v" "literal_type v = Some t"
    using tyenv_of_lookup by blast
  with ident show ?case by (simp add: get_property_def get_field_unwrap)
next
  case (Add l r2)
  from Add.prems(2) have ty: "expr_type G l = Some TNumber"
    "expr_type G r2 = Some TNumber" "t = TNumber"
    by (auto split: if_splits)
  from Add.IH(1)[OF Add.prems(1) ty(1)] obtain fl a where
    l: "toJs_expr l = Inr fl" "evaluate_expr l (Ref r) h = Inr (Number (PNum a))"
    "fl (Ref r) (unwrap_heap h) = Inr (PNum a)"
    by (auto dest!: literal_type_TNumber)
  from Add.IH(2)[OF Add.prems(1) ty(2)] obtain fr b where
    r: "toJs_expr r2 = Inr fr" "evaluate_expr r2 (Ref r) h = Inr (Number (PNum b))"
    "fr (Ref r) (unwrap_heap h) = Inr (PNum b)"
    by (auto dest!: literal_type_TNumber)
  from l r ty(3) show ?case by (simp add: js_plus_def)
next
  case (Multiply l r2)
  from Multiply.prems(2) have ty: "expr_type G l = Some TNumber"
    "expr_type G r2 = Some TNumber" "t = TNumber"
    by (auto split: if_splits)
  from Multiply.IH(1)[OF Multiply.prems(1) ty(1)] obtain fl a where
    l: "toJs_expr l = Inr fl" "evaluate_expr l (Ref r) h = Inr (Number (PNum a))"
    "fl (Ref r) (unwrap_heap h) = Inr (PNum a)"
    by (auto dest!: literal_type_TNumber)
  from Multiply.IH(2)[OF Multiply.prems(1) ty(2)] obtain fr b where
    r: "toJs_expr r2 = Inr fr" "evaluate_expr r2 (Ref r) h = Inr (Number (PNum b))"
    "fr (Ref r) (unwrap_heap h) = Inr (PNum b)"
    by (auto dest!: literal_type_TNumber)
  from l r ty(3) show ?case by (simp add: js_times_def)
next
  case (LessThan l r2)
  from LessThan.prems(2) have ty: "expr_type G l = Some TNumber"
    "expr_type G r2 = Some TNumber" "t = TBoolean"
    by (auto split: if_splits)
  from LessThan.IH(1)[OF LessThan.prems(1) ty(1)] obtain fl a where
    l: "toJs_expr l = Inr fl" "evaluate_expr l (Ref r) h = Inr (Number (PNum a))"
    "fl (Ref r) (unwrap_heap h) = Inr (PNum a)"
    by (auto dest!: literal_type_TNumber)
  from LessThan.IH(2)[OF LessThan.prems(1) ty(2)] obtain fr b where
    r: "toJs_expr r2 = Inr fr" "evaluate_expr r2 (Ref r) h = Inr (Number (PNum b))"
    "fr (Ref r) (unwrap_heap h) = Inr (PNum b)"
    by (auto dest!: literal_type_TNumber)
  from l r ty(3) show ?case by (simp add: js_less_def)
qed

lemma agree_le_left: "(\<lambda>name. if Ga name = Gb name then Ga name else None) \<subseteq>\<^sub>m Ga"
  by (auto simp: map_le_def dom_def split: if_splits)

lemma agree_le_right: "(\<lambda>name. if Ga name = Gb name then Ga name else None) \<subseteq>\<^sub>m Gb"
  by (auto simp: map_le_def dom_def split: if_splits)

lemma le_agree:
  "G \<subseteq>\<^sub>m Ga \<Longrightarrow> G \<subseteq>\<^sub>m Gb \<Longrightarrow> G \<subseteq>\<^sub>m (\<lambda>name. if Ga name = Gb name then Ga name else None)"
  by (auto simp: map_le_def dom_def)

lemma stmt_type_extends: "stmt_type G s = Some G' \<Longrightarrow> G \<subseteq>\<^sub>m G'"
proof (induction s arbitrary: G G')
  case DoNothing
  then show ?case by simp
next
  case (Assign name e)
  then show ?case by (auto simp: map_le_def split: option.splits if_splits)
next
  case (If_node c a b)
  from If_node.prems obtain Ga Gb where
    g: "stmt_type G a = Some Ga" "stmt_type G b = Some Gb"
    "G' = (\<lambda>name. if Ga name = Gb name then Ga name else None)"
    by (auto split: if_splits option.splits)
  from If_node.IH(1)[OF g(1)] If_node.IH(2)[OF g(2)] show ?case
    unfolding g(3) by (rule le_agree)
next
  case (Sequence a b)
  from Sequence.prems obtain G1 where
    g: "stmt_type G a = Some G1" "stmt_type G1 b = Some G'"
    by (auto split: option.splits)
  from Sequence.IH(1)[OF g(1)] Sequence.IH(2)[OF g(2)] show ?case by (rule map_le_trans)
next
  case (While c b)
  then show ?case by (auto split: if_splits option.splits)
qed

lemma tyenv_of_assign:
  "G \<subseteq>\<^sub>m tyenv_of obj \<Longrightarrow> literal_type v = Some t \<Longrightarrow>
   G(name \<mapsto> t) \<subseteq>\<^sub>m tyenv_of (obj(name \<mapsto> v))"
  by (auto simp: map_le_def tyenv_of_def dom_def)

lemma plain_name_not_proto: "plain_name name \<Longrightarrow> name \<noteq> ''__proto__''"
  by (auto simp: plain_name_def inherited_def object_prototype_names_def)

lemma compiled_condition:
  assumes "G \<subseteq>\<^sub>m tyenv_of (h r)" and "expr_type G c = Some TBoolean"
  obtains fc bb where "toJs_expr c = Inr fc"
    "evaluate_expr c (Ref r) h = Inr (Boolean (PBool bb))"
    "fc (Ref r) (unwrap_heap h) = Inr (PBool bb)"
  using compiled_expr_typed[of G h r c TBoolean] assms
  by (auto dest!: literal_type_TBoolean)

lemma compiled_stmt_typed:
  "G \<subseteq>\<^sub>m tyenv_of (h r) \<Longrightarrow> stmt_type G s = Some G' \<Longrightarrow> toJs_stmt s = Inr f \<Longrightarrow>
   env = Ref r \<Longrightarrow>
   f n env (unwrap_heap h) = unwrap_outcome (evaluate_stmt n s env h) \<and>
   (\<forall>res. evaluate_stmt n s env h = Some res \<longrightarrow>
      (\<exists>h'. res = Inr (Ref r, h') \<and> G' \<subseteq>\<^sub>m tyenv_of (h' r)))"
proof (induction n s env h arbitrary: f G G' rule: evaluate_stmt.induct)
  case (1 n env h)
  then show ?case by (auto simp: unwrap_outcome_def)
next
  case (2 n name e env h)
  from "2.prems"(2) obtain t where
    t: "expr_type G e = Some t" "G' = G(name \<mapsto> t)" and pn: "plain_name name"
    by (auto split: option.splits if_splits)
  from pn have ident: "is_identifier name" and np: "name \<noteq> ''__proto__''"
    by (simp_all add: plain_name_def plain_name_not_proto)
  from compiled_expr_typed[of G h r e t] "2.prems"(1) t(1) obtain fx v where
    x: "toJs_expr e = Inr fx" "evaluate_expr e (Ref r) h = Inr v"
    "literal_type v = Some t" "fx (Ref r) (unwrap_heap h) = Inr (unwrap v)"
    by blast
  from x(1) "2.prems"(3) ident have f: "f = (\<lambda>n e ch.
      case fx e ch of Inl err \<Rightarrow> Some (Inl err) | Inr v \<Rightarrow> Some (set_field e name v ch))"
    by simp
  have ev: "evaluate_stmt n (Assign name e) env h =
      Some (Inr (Ref r, h(r := (h r)(name \<mapsto> v))))"
    using x(2) "2.prems"(4) np by (simp add: merge_def)
  have "f n env (unwrap_heap h) =
      Some (Inr (Ref r, (unwrap_heap h)(r := (unwrap_heap h r)(name \<mapsto> unwrap v))))"
    unfolding f using x(4) "2.prems"(4) np by (simp add: set_field_def)
  moreover have "G' \<subseteq>\<^sub>m tyenv_of ((h r)(name \<mapsto> v))"
    unfolding t(2) using "2.prems"(1) x(3) by (rule tyenv_of_assign)
  ultimately show ?case unfolding ev
    by (simp add: unwrap_outcome_def unwrap_heap_update)
next
  case (3 n c a b env h)
  from "3.prems"(2) obtain Ga Gb where
    ok: "expr_type G c = Some TBoolean" "stmt_type G a = Some Ga" "stmt_type G b = Some Gb"
    and G': "G' = (\<lambda>name. if Ga name = Gb name then Ga name else None)"
    by (auto split: if_splits option.splits)
  from "3.prems"(1) ok(1) obtain fc bb where c: "toJs_expr c = Inr fc"
    "evaluate_expr c (Ref r) h = Inr (Boolean (PBool bb))"
    "fc (Ref r) (unwrap_heap h) = Inr (PBool bb)"
    by (rule compiled_condition[of G h r c])
  from "3.prems"(3) c(1) obtain fa fb where
    fab: "toJs_stmt a = Inr fa" "toJs_stmt b = Inr fb"
    and f: "f = (\<lambda>n e ch. case fc e ch of Inl err \<Rightarrow> Some (Inl err)
                 | Inr v \<Rightarrow> if js_truthy v then fa n e ch else fb n e ch)"
    by (auto split: sum.splits)
  note env = "3.prems"(4)
  have cv: "evaluate_expr c env h = Inr (Boolean (PBool bb))" using c(2) env by simp
  show ?case
  proof (cases bb)
    case True
    from "3.IH"(1)[OF cv _ _ "3.prems"(1) ok(2) fab(1) env] True
    have IH: "fa n env (unwrap_heap h) = unwrap_outcome (evaluate_stmt n a env h)"
      "\<forall>res. evaluate_stmt n a env h = Some res \<longrightarrow>
        (\<exists>h'. res = Inr (Ref r, h') \<and> Ga \<subseteq>\<^sub>m tyenv_of (h' r))" by simp_all
    have e: "evaluate_stmt n (If_node c a b) env h = evaluate_stmt n a env h"
      using cv True by simp
    have "f n env (unwrap_heap h) = fa n env (unwrap_heap h)"
      unfolding f using c(3) env True by simp
    with IH(1) e have "f n env (unwrap_heap h) =
        unwrap_outcome (evaluate_stmt n (If_node c a b) env h)" by simp
    moreover from IH(2) have "\<forall>res. evaluate_stmt n (If_node c a b) env h = Some res \<longrightarrow>
        (\<exists>h'. res = Inr (Ref r, h') \<and> G' \<subseteq>\<^sub>m tyenv_of (h' r))"
      unfolding e G' using map_le_trans[OF agree_le_left] by blast
    ultimately show ?thesis by blast
  next
    case False
    from "3.IH"(2)[OF cv _ _ _ "3.prems"(1) ok(3) fab(2) env] False
    have IH: "fb n env (unwrap_heap h) = unwrap_outcome (evaluate_stmt n b env h)"
      "\<forall>res. evaluate_stmt n b env h = Some res \<longrightarrow>
        (\<exists>h'. res = Inr (Ref r, h') \<and> Gb \<subseteq>\<^sub>m tyenv_of (h' r))" by simp_all
    have e: "evaluate_stmt n (If_node c a b) env h = evaluate_stmt n b env h"
      using cv False by simp
    have "f n env (unwrap_heap h) = fb n env (unwrap_heap h)"
      unfolding f using c(3) env False by simp
    with IH(1) e have "f n env (unwrap_heap h) =
        unwrap_outcome (evaluate_stmt n (If_node c a b) env h)" by simp
    moreover from IH(2) have "\<forall>res. evaluate_stmt n (If_node c a b) env h = Some res \<longrightarrow>
        (\<exists>h'. res = Inr (Ref r, h') \<and> G' \<subseteq>\<^sub>m tyenv_of (h' r))"
      unfolding e G' using map_le_trans[OF agree_le_right] by blast
    ultimately show ?thesis by blast
  qed
next
  case (4 n a b env h)
  from "4.prems"(2) obtain G1 where
    ok: "stmt_type G a = Some G1" "stmt_type G1 b = Some G'"
    by (auto split: option.splits)
  from "4.prems"(3) obtain fa fb where
    fab: "toJs_stmt a = Inr fa" "toJs_stmt b = Inr fb"
    and f: "f = (\<lambda>n e ch. case fa n e ch of None \<Rightarrow> None
                 | Some (Inl err) \<Rightarrow> Some (Inl err)
                 | Some (Inr (e', ch')) \<Rightarrow> fb n e' ch')"
    by (auto split: sum.splits)
  note env = "4.prems"(4)
  from "4.IH"(1)[OF "4.prems"(1) ok(1) fab(1) env]
  have IHa: "fa n env (unwrap_heap h) = unwrap_outcome (evaluate_stmt n a env h)"
    "\<forall>res. evaluate_stmt n a env h = Some res \<longrightarrow>
      (\<exists>h'. res = Inr (Ref r, h') \<and> G1 \<subseteq>\<^sub>m tyenv_of (h' r))" by simp_all
  show ?case
  proof (cases "evaluate_stmt n a env h")
    case None
    with IHa(1) have "fa n env (unwrap_heap h) = None" by (simp add: unwrap_outcome_def)
    with None show ?thesis unfolding f by (simp add: unwrap_outcome_def)
  next
    case (Some res)
    with IHa(2) obtain h1 where h1: "res = Inr (Ref r, h1)" "G1 \<subseteq>\<^sub>m tyenv_of (h1 r)"
      by blast
    from IHa(1) Some h1(1) have fa: "fa n env (unwrap_heap h) = Some (Inr (Ref r, unwrap_heap h1))"
      by (simp add: unwrap_outcome_def)
    from "4.IH"(2)[OF Some h1(1) refl h1(2) ok(2) fab(2) refl]
    have IHb: "fb n (Ref r) (unwrap_heap h1) = unwrap_outcome (evaluate_stmt n b (Ref r) h1)"
      "\<forall>res. evaluate_stmt n b (Ref r) h1 = Some res \<longrightarrow>
        (\<exists>h'. res = Inr (Ref r, h') \<and> G' \<subseteq>\<^sub>m tyenv_of (h' r))" by simp_all
    have "evaluate_stmt n (Sequence a b) env h = evaluate_stmt n b (Ref r) h1"
      using Some h1(1) by simp
    moreover have "f n env (unwrap_heap h) = fb n (Ref r) (unwrap_heap h1)"
      unfolding f using fa by simp
    ultimately show ?thesis using IHb by simp
  qed
next
  case (5 c b env h)
  from "5.prems"(2) have ok: "expr_type G c = Some TBoolean" by (simp split: if_splits)
  with "5.prems"(1) obtain fc where c: "toJs_expr c = Inr fc"
    using compiled_expr_typed[of G h r c TBoolean] by blast
  with "5.prems"(3) obtain fb where "f = js_while fc fb" by (auto split: sum.splits)
  then show ?case by (simp add: unwrap_outcome_def)
next
  case (6 n c b env h)
  from "6.prems"(2) obtain Gb where
    ok: "expr_type G c = Some TBoolean" "stmt_type G b = Some Gb" and G': "G' = G"
    by (auto split: if_splits option.splits)
  from "6.prems"(1) ok(1) obtain fc bb where c: "toJs_expr c = Inr fc"
    "evaluate_expr c (Ref r) h = Inr (Boolean (PBool bb))"
    "fc (Ref r) (unwrap_heap h) = Inr (PBool bb)"
    by (rule compiled_condition[of G h r c])
  from "6.prems"(3) c(1) obtain fb where
    fb: "toJs_stmt b = Inr fb" and f: "f = js_while fc fb"
    by (auto split: sum.splits)
  note env = "6.prems"(4)
  have cv: "evaluate_expr c env h = Inr (Boolean (PBool bb))" using c(2) env by simp
  show ?case
  proof (cases bb)
    case False
    have "evaluate_stmt (Suc n) (While c b) env h = Some (Inr (Ref r, h))"
      using cv env False by simp
    moreover have "f (Suc n) env (unwrap_heap h) = Some (Inr (Ref r, unwrap_heap h))"
      unfolding f using c(3) env False by simp
    ultimately show ?thesis using "6.prems"(1) G' by (simp add: unwrap_outcome_def)
  next
    case True
    from "6.IH"(1)[OF cv _ _ "6.prems"(1) ok(2) fb env] True
    have IHb: "fb n env (unwrap_heap h) = unwrap_outcome (evaluate_stmt n b env h)"
      "\<forall>res. evaluate_stmt n b env h = Some res \<longrightarrow>
        (\<exists>h'. res = Inr (Ref r, h') \<and> Gb \<subseteq>\<^sub>m tyenv_of (h' r))" by simp_all
    show ?thesis
    proof (cases "evaluate_stmt n b env h")
      case None
      with IHb(1) have "fb n env (unwrap_heap h) = None" by (simp add: unwrap_outcome_def)
      then have "f (Suc n) env (unwrap_heap h) = None"
        unfolding f using c(3) env True by simp
      moreover have "evaluate_stmt (Suc n) (While c b) env h = None"
        using cv None True by simp
      ultimately show ?thesis by (simp add: unwrap_outcome_def)
    next
      case (Some res)
      with IHb(2) obtain h1 where h1: "res = Inr (Ref r, h1)" "Gb \<subseteq>\<^sub>m tyenv_of (h1 r)"
        by blast
      from IHb(1) Some h1(1) have
        fbr: "fb n env (unwrap_heap h) = Some (Inr (Ref r, unwrap_heap h1))"
        by (simp add: unwrap_outcome_def)
      from stmt_type_extends[OF ok(2)] h1(2) have G1: "G \<subseteq>\<^sub>m tyenv_of (h1 r)"
        by (rule map_le_trans)
      from True have v: "PBool bb = PBool True" by simp
      from "6.IH"(2)[OF cv _ v Some h1(1) refl G1 "6.prems"(2) "6.prems"(3) refl]
      have IHw: "f n (Ref r) (unwrap_heap h1) = unwrap_outcome (evaluate_stmt n (While c b) (Ref r) h1)"
        "\<forall>res. evaluate_stmt n (While c b) (Ref r) h1 = Some res \<longrightarrow>
          (\<exists>h'. res = Inr (Ref r, h') \<and> G' \<subseteq>\<^sub>m tyenv_of (h' r))" by simp_all
      have "evaluate_stmt (Suc n) (While c b) env h = evaluate_stmt n (While c b) (Ref r) h1"
        using cv True Some h1(1) by simp
      moreover have "f (Suc n) env (unwrap_heap h) = f n (Ref r) (unwrap_heap h1)"
        unfolding f using c(3) env True fbr by simp
      ultimately show ?thesis using IHw by simp
    qed
  qed
qed

lemma expr_type_toJs: "expr_type G e = Some t \<Longrightarrow> \<exists>f. toJs_expr e = Inr f"
  by (induction e arbitrary: t) (auto simp: plain_name_def split: if_splits)

lemma stmt_type_toJs: "stmt_type G s = Some G' \<Longrightarrow> \<exists>f. toJs_stmt s = Inr f"
proof (induction s arbitrary: G G')
  case (Assign name e)
  then obtain t where "expr_type G e = Some t" and "is_identifier name"
    by (auto simp: plain_name_def split: option.splits if_splits)
  moreover then obtain f where "toJs_expr e = Inr f" using expr_type_toJs by blast
  ultimately show ?case by simp
next
  case (If_node c a b)
  from If_node.prems obtain Ga Gb where
    "expr_type G c = Some TBoolean" "stmt_type G a = Some Ga" "stmt_type G b = Some Gb"
    by (auto split: if_splits option.splits)
  with If_node.IH obtain fc fa fb where
    "toJs_expr c = Inr fc" "toJs_stmt a = Inr fa" "toJs_stmt b = Inr fb"
    using expr_type_toJs[of G c TBoolean] by blast
  then show ?case by simp
next
  case (Sequence a b)
  from Sequence.prems obtain G1 where "stmt_type G a = Some G1" "stmt_type G1 b = Some G'"
    by (auto split: option.splits)
  with Sequence.IH obtain fa fb where "toJs_stmt a = Inr fa" "toJs_stmt b = Inr fb" by blast
  then show ?case by simp
next
  case (While c b)
  from While.prems obtain Gb where "expr_type G c = Some TBoolean" "stmt_type G b = Some Gb"
    by (auto split: if_splits option.splits)
  with While.IH obtain fc fb where "toJs_expr c = Inr fc" "toJs_stmt b = Inr fb"
    using expr_type_toJs[of G c TBoolean] by blast
  then show ?case by simp
qed simp

section \<open>Properties\<close>

text \<open>
  C1.  For every expression \<open>e\<close> built from \<open>Number\<close>, \<open>Boolean\<close>, \<open>Variable\<close>, \<open>Add\<close>,
  \<open>Multiply\<close> and \<open>LessThan\<close>, and every environment that binds each variable of \<open>e\<close> to
  a literal node, \<open>e.evaluate(env)\<close> returns a literal node \<open>v\<close>, and applying \<open>reduce\<close>
  until \<open>reducible()\<close> is false returns the same \<open>v\<close>; \<open>redexes e\<close> reductions are
  enough.  The code needs no typing for this: it holds for ill-typed closed expressions
  as well, and a well-typed expression is closed (\<open>expr_type_closed\<close>).
\<close>

theorem reduce_to_evaluate:
  assumes "closed_in (h r) e"
  shows "\<exists>v. literal v \<and> evaluate_expr e (Ref r) h = Inr v \<and>
           (\<forall>n\<ge>redexes e. reduce_until_irreducible n e (Ref r) h = Some (Inr v))"
  using assms closed_in_evaluate[of h r e] reduce_until_evaluate[of h r e] by auto

text \<open>
  The sample of chapter2.js: \<open>x + 2 < y\<close> under \<open>{ x: 4, y: 5 }\<close> is \<open>false\<close> both ways,
  after four reductions.
\<close>

theorem reduce_to_evaluate_witness:
  "closed_in ((empty_heap(0 := [''x'' \<mapsto> Number (PNum 4), ''y'' \<mapsto> Number (PNum 5)])) 0)
     (LessThan (Add (Variable ''x'') (Number (PNum 2))) (Variable ''y'')) \<and>
   evaluate_expr (LessThan (Add (Variable ''x'') (Number (PNum 2))) (Variable ''y'')) (Ref 0)
     (empty_heap(0 := [''x'' \<mapsto> Number (PNum 4), ''y'' \<mapsto> Number (PNum 5)])) =
     Inr (Boolean (PBool False)) \<and>
   reduce_until_irreducible 4
     (LessThan (Add (Variable ''x'') (Number (PNum 2))) (Variable ''y'')) (Ref 0)
     (empty_heap(0 := [''x'' \<mapsto> Number (PNum 4), ''y'' \<mapsto> Number (PNum 5)])) =
     Some (Inr (Boolean (PBool False)))"
  using reduce_to_evaluate
    [of "empty_heap(0 := [''x'' \<mapsto> Number (PNum 4), ''y'' \<mapsto> Number (PNum 5)])" 0
        "LessThan (Add (Variable ''x'') (Number (PNum 2))) (Variable ''y'')"]
  by (simp add: get_property_def js_plus_def js_less_def)

text \<open>
  C2, as the code has it.  \<open>Assign.evaluate\<close> hands the environment object to \<open>merge\<close>,
  which writes the field into that very object and returns it.  When
  \<open>expr.evaluate(env)\<close> returns \<open>v\<close> and \<open>name\<close> is not \<open>__proto__\<close>, evaluating
  \<open>Assign(name, expr)\<close> under the object \<open>env\<close> returns \<open>env\<close> itself, and in the store the
  object has \<open>name\<close> bound to \<open>v\<close>, its other fields and all other objects being as
  before.  No new environment is made: every holder of \<open>env\<close> sees the update.
  (A write to \<open>__proto__\<close> goes to the setter of \<open>Object.prototype\<close> and binds nothing.)
\<close>

theorem assign_evaluate_in_place:
  assumes "evaluate_expr e (Ref r) h = Inr v" and "name \<noteq> ''__proto__''"
  shows "evaluate_stmt n (Assign name e) (Ref r) h =
           Some (Inr (Ref r, h(r := (h r)(name \<mapsto> v))))"
  using assms by (simp add: merge_def)

theorem assign_evaluate_in_place_witness:
  "evaluate_expr (Add (Variable ''x'') (Number (PNum 1))) (Ref 0)
     (empty_heap(0 := [''x'' \<mapsto> Number (PNum 2)])) = Inr (Number (PNum 3)) \<and>
   ''y'' \<noteq> ''__proto__'' \<and>
   evaluate_stmt 0 (Assign ''y'' (Add (Variable ''x'') (Number (PNum 1)))) (Ref 0)
     (empty_heap(0 := [''x'' \<mapsto> Number (PNum 2)])) =
     Some (Inr (Ref 0,
       empty_heap(0 := [''x'' \<mapsto> Number (PNum 2), ''y'' \<mapsto> Number (PNum 3)])))"
  using assign_evaluate_in_place
    [of "Add (Variable ''x'') (Number (PNum 1))" 0
        "empty_heap(0 := [''x'' \<mapsto> Number (PNum 2)])" "Number (PNum 3)" "''y''" 0]
  by (simp add: get_property_def js_plus_def)

text \<open>
  Against C2 as stated (the original environment is not mutated): evaluating
  \<open>Assign("x", Number(1))\<close> under the empty object at address 0 returns that same object,
  and the object at address 0 is no longer the empty one.
\<close>

theorem assign_evaluate_mutates_caller:
  "evaluate_stmt 0 (Assign ''x'' (Number (PNum 1))) (Ref 0) empty_heap =
     Some (Inr (Ref 0, empty_heap(0 := [''x'' \<mapsto> Number (PNum 1)]))) \<and>
   (empty_heap(0 := [''x'' \<mapsto> Number (PNum 1)])) 0 \<noteq> empty_heap 0"
  by (simp add: merge_def empty_heap_def)

text \<open>
  C3, as the code has it.  \<open>Assign("x", Add(Variable("x"), Number(1)))\<close> under \<open>{ x: 2 }\<close>
  takes three steps, not two: \<open>x = x + 1\<close> becomes \<open>x = 2 + 1\<close>, then \<open>x = 3\<close>, and the third
  step stores 3 and leaves \<open>(DoNothing, { x: 3 })\<close>.  After two steps the machine would
  still go on.
\<close>

theorem assign_self_reference_three_steps:
  "step (Machine (Assign ''x'' (Add (Variable ''x'') (Number (PNum 1)))) (Ref 0))
     (empty_heap(0 := [''x'' \<mapsto> Number (PNum 2)])) =
     Inr (Machine (Assign ''x'' (Add (Number (PNum 2)) (Number (PNum 1)))) (Ref 0),
          empty_heap(0 := [''x'' \<mapsto> Number (PNum 2)])) \<and>
   step (Machine (Assign ''x'' (Add (Number (PNum 2)) (Number (PNum 1)))) (Ref 0))
     (empty_heap(0 := [''x'' \<mapsto> Number (PNum 2)])) =
     Inr (Machine (Assign ''x'' (Number (PNum 3))) (Ref 0),
          empty_heap(0 := [''x'' \<mapsto> Number (PNum 2)])) \<and>
   step (Machine (Assign ''x'' (Number (PNum 3))) (Ref 0))
     (empty_heap(0 := [''x'' \<mapsto> Number (PNum 2)])) =
     Inr (Machine DoNothing (Ref 0), empty_heap(0 := [''x'' \<mapsto> Number (PNum 3)])) \<and>
   run 2 (Machine (Assign ''x'' (Add (Variable ''x'') (Number (PNum 1)))) (Ref 0))
     (empty_heap(0 := [''x'' \<mapsto> Number (PNum 2)])) = None \<and>
   run 3 (Machine (Assign ''x'' (Add (Variable ''x'') (Number (PNum 1)))) (Ref 0))
     (empty_heap(0 := [''x'' \<mapsto> Number (PNum 2)])) =
     Some (Inr (Machine DoNothing (Ref 0), empty_heap(0 := [''x'' \<mapsto> Number (PNum 3)])))"
  by (simp add: get_property_def merge_def js_plus_def)

text \<open>
  Against C3 as stated: a run of two steps does not end in \<open>(DoNothing, { x: 3 })\<close>.
\<close>

theorem assign_self_reference_not_two_steps:
  "run 2 (Machine (Assign ''x'' (Add (Variable ''x'') (Number (PNum 1)))) (Ref 0))
     (empty_heap(0 := [''x'' \<mapsto> Number (PNum 2)])) \<noteq>
   Some (Inr (Machine DoNothing (Ref 0), empty_heap(0 := [''x'' \<mapsto> Number (PNum 3)])))"
  by (simp add: get_property_def merge_def js_plus_def)

text \<open>
  C4.  One reduction of \<open>While(cond, body)\<close> returns the pair of
  \<open>If(cond, Sequence(body, While(cond, body)), DoNothing)\<close> and the environment it was
  given, whatever the condition, the body and the environment are; the store is not
  touched.
\<close>

theorem while_reduce_unrolls:
  "reduce_stmt (While cond body) env h =
     Inr (Reduced (If_node cond (Sequence body (While cond body)) DoNothing) env, h)"
  by simp

text \<open>
  C5, as the code has it.  The evaluator works on environments of nodes and returns
  nodes; compiled code works on environments of primitives and returns primitives.
  Well-typed is \<open>expr_type\<close> and \<open>stmt_ok\<close> above, under the types of the literals that
  the environment holds; every name of a well-typed program is an identifier that
  \<open>Object.prototype\<close> does not hold.
  For a well-typed expression \<open>e\<close> and an environment object \<open>env\<close> of nodes, calling
  the compiled closure on the environment that holds the \<open>value\<close> of each node of \<open>env\<close>
  returns the \<open>value\<close> of the node \<open>e.evaluate(env)\<close>.  For a well-typed statement \<open>s\<close>
  the compiled closure, called on that environment of values, ends exactly when
  \<open>s.evaluate(env)\<close> ends, neither throws, and it leaves the environment that holds the
  values of the nodes \<open>s.evaluate(env)\<close> leaves.
\<close>

theorem compiled_agrees_on_values:
  "(expr_type (tyenv_of (h r)) e = Some t \<longrightarrow>
      (\<exists>v. evaluate_expr e (Ref r) h = Inr v \<and>
           call_compiled_expr e (Ref r) (unwrap_heap h) = Inr (unwrap v))) \<and>
   (stmt_ok (tyenv_of (h r)) s \<longrightarrow>
      call_compiled_stmt n s (Ref r) (unwrap_heap h) =
        unwrap_outcome (evaluate_stmt n s (Ref r) h) \<and>
      (\<forall>err. evaluate_stmt n s (Ref r) h \<noteq> Some (Inl err)))"
proof (intro conjI impI)
  assume "expr_type (tyenv_of (h r)) e = Some t"
  with compiled_expr_typed[of "tyenv_of (h r)" h r e t]
  show "\<exists>v. evaluate_expr e (Ref r) h = Inr v \<and>
          call_compiled_expr e (Ref r) (unwrap_heap h) = Inr (unwrap v)"
    by (auto simp: call_compiled_expr_def)
next
  assume "stmt_ok (tyenv_of (h r)) s"
  then obtain G' where ok: "stmt_type (tyenv_of (h r)) s = Some G'"
    by (auto simp: stmt_ok_def)
  then obtain f where f: "toJs_stmt s = Inr f" using stmt_type_toJs by blast
  from compiled_stmt_typed[of "tyenv_of (h r)" h r s G' f "Ref r" n] ok f
  have 1: "f n (Ref r) (unwrap_heap h) = unwrap_outcome (evaluate_stmt n s (Ref r) h)"
    and 2: "\<forall>res. evaluate_stmt n s (Ref r) h = Some res \<longrightarrow>
      (\<exists>h'. res = Inr (Ref r, h') \<and> G' \<subseteq>\<^sub>m tyenv_of (h' r))"
    by simp_all
  from 1 f show "call_compiled_stmt n s (Ref r) (unwrap_heap h) =
      unwrap_outcome (evaluate_stmt n s (Ref r) h)"
    by (simp add: call_compiled_stmt_def)
  from 2 show "\<forall>err. evaluate_stmt n s (Ref r) h \<noteq> Some (Inl err)" by auto
qed

text \<open>
  The samples of chapter2.js: the compiled \<open>while (x < 5) { x = x * 3 }\<close> on \<open>{ x: 1 }\<close>
  returns \<open>{ x: 9 }\<close>, its condition is \<open>true\<close> on \<open>{ x: 1 }\<close>, and the compiled
  \<open>if (x) { y = 1 } else { y = 2 }\<close> on \<open>{ x: false }\<close> returns \<open>{ x: false, y: 2 }\<close>.
\<close>

theorem compiled_agrees_on_values_witness:
  "expr_type (tyenv_of ((empty_heap(0 := [''x'' \<mapsto> Number (PNum 1)])) 0))
     (LessThan (Variable ''x'') (Number (PNum 5))) = Some TBoolean \<and>
   call_compiled_expr (LessThan (Variable ''x'') (Number (PNum 5))) (Ref 0)
     (empty_cheap(0 := [''x'' \<mapsto> PNum 1])) = Inr (PBool True) \<and>
   stmt_ok (tyenv_of ((empty_heap(0 := [''x'' \<mapsto> Number (PNum 1)])) 0)) sample_while \<and>
   call_compiled_stmt 3 sample_while (Ref 0) (empty_cheap(0 := [''x'' \<mapsto> PNum 1])) =
     Some (Inr (Ref 0, empty_cheap(0 := [''x'' \<mapsto> PNum 9]))) \<and>
   stmt_ok (tyenv_of ((empty_heap(0 := [''x'' \<mapsto> Boolean (PBool False)])) 0)) sample_if \<and>
   call_compiled_stmt 0 sample_if (Ref 0) (empty_cheap(0 := [''x'' \<mapsto> PBool False])) =
     Some (Inr (Ref 0, empty_cheap(0 := [''x'' \<mapsto> PBool False, ''y'' \<mapsto> PNum 2])))"
proof -
  have u1: "unwrap_heap (empty_heap(0 := [''x'' \<mapsto> Number (PNum 1)])) =
      empty_cheap(0 := [''x'' \<mapsto> PNum 1])"
    by (simp add: fun_eq_iff unwrap_heap_def unwrap_object_def empty_heap_def empty_cheap_def)
  have u9: "unwrap_heap (empty_heap(0 := [''x'' \<mapsto> Number (PNum 9)])) =
      empty_cheap(0 := [''x'' \<mapsto> PNum 9])"
    by (simp add: fun_eq_iff unwrap_heap_def unwrap_object_def empty_heap_def empty_cheap_def)
  have uf: "unwrap_heap (empty_heap(0 := [''x'' \<mapsto> Boolean (PBool False)])) =
      empty_cheap(0 := [''x'' \<mapsto> PBool False])"
    by (simp add: fun_eq_iff unwrap_heap_def unwrap_object_def empty_heap_def empty_cheap_def)
  have uy: "unwrap_heap
      (empty_heap(0 := [''x'' \<mapsto> Boolean (PBool False), ''y'' \<mapsto> Number (PNum 2)])) =
      empty_cheap(0 := [''x'' \<mapsto> PBool False, ''y'' \<mapsto> PNum 2])"
    by (simp add: fun_eq_iff unwrap_heap_def unwrap_object_def empty_heap_def empty_cheap_def)
  have ty: "expr_type (tyenv_of ((empty_heap(0 := [''x'' \<mapsto> Number (PNum 1)])) 0))
      (LessThan (Variable ''x'') (Number (PNum 5))) = Some TBoolean"
    by (simp add: tyenv_of_def plain_name_def inherited_def object_prototype_names_def
        identifier_start_def)
  have ok: "stmt_ok (tyenv_of ((empty_heap(0 := [''x'' \<mapsto> Number (PNum 1)])) 0)) sample_while"
    by (simp add: stmt_ok_def sample_while_def tyenv_of_def plain_name_def inherited_def
        object_prototype_names_def identifier_start_def)
  have ev: "evaluate_stmt 3 sample_while (Ref 0) (empty_heap(0 := [''x'' \<mapsto> Number (PNum 1)])) =
      Some (Inr (Ref 0, empty_heap(0 := [''x'' \<mapsto> Number (PNum 9)])))"
    by (simp add: sample_while_def eval_nat_numeral get_property_def merge_def js_times_def
        js_less_def)
  have okf: "stmt_ok (tyenv_of ((empty_heap(0 := [''x'' \<mapsto> Boolean (PBool False)])) 0))
      sample_if"
    by (simp add: stmt_ok_def sample_if_def tyenv_of_def plain_name_def inherited_def
        object_prototype_names_def identifier_start_def)
  have evf: "evaluate_stmt 0 sample_if (Ref 0)
      (empty_heap(0 := [''x'' \<mapsto> Boolean (PBool False)])) =
      Some (Inr (Ref 0,
        empty_heap(0 := [''x'' \<mapsto> Boolean (PBool False), ''y'' \<mapsto> Number (PNum 2)])))"
    by (simp add: sample_if_def get_property_def merge_def)
  from compiled_agrees_on_values
    [of "empty_heap(0 := [''x'' \<mapsto> Number (PNum 1)])" 0
        "LessThan (Variable ''x'') (Number (PNum 5))" TBoolean sample_while 3]
    ty ok ev u1 u9
  have w: "call_compiled_expr (LessThan (Variable ''x'') (Number (PNum 5))) (Ref 0)
      (empty_cheap(0 := [''x'' \<mapsto> PNum 1])) = Inr (PBool True) \<and>
    call_compiled_stmt 3 sample_while (Ref 0) (empty_cheap(0 := [''x'' \<mapsto> PNum 1])) =
      Some (Inr (Ref 0, empty_cheap(0 := [''x'' \<mapsto> PNum 9])))"
    by (simp add: get_property_def js_less_def unwrap_outcome_def)
  from compiled_agrees_on_values
    [of "empty_heap(0 := [''x'' \<mapsto> Boolean (PBool False)])" 0 Undefined TNumber sample_if 0]
    okf evf uf uy
  have i: "call_compiled_stmt 0 sample_if (Ref 0) (empty_cheap(0 := [''x'' \<mapsto> PBool False])) =
      Some (Inr (Ref 0, empty_cheap(0 := [''x'' \<mapsto> PBool False, ''y'' \<mapsto> PNum 2])))"
    by (simp add: unwrap_outcome_def)
  from ty ok okf w i show ?thesis by simp
qed

text \<open>
  Against C5 as stated (the two results are equal): on the empty environment the compiled
  \<open>Number(3)\<close> returns the primitive 3, and \<open>Number(3).evaluate\<close> returns the node.
\<close>

theorem compiled_number_differs_from_evaluate:
  "map_sum id Primitive (call_compiled_expr (Number (PNum 3)) (Ref 0) empty_cheap) \<noteq>
   map_sum id Node (evaluate_expr (Number (PNum 3)) (Ref 0) empty_heap)"
  by (simp add: call_compiled_expr_def)

text \<open>
  C6.  For \<open>while (x < 5) { x = x * 3 }\<close> from \<open>{ x: 1 }\<close>, the run of the machine ends
  (after 20 steps) in \<open>(DoNothing, { x: 9 })\<close>, and \<open>evaluate\<close> returns the environment
  \<open>{ x: 9 }\<close> (three nested \<open>While.evaluate\<close> calls).
\<close>

theorem while_example_terminates:
  "run 20 (Machine sample_while (Ref 0)) (empty_heap(0 := [''x'' \<mapsto> Number (PNum 1)])) = Some (Inr (Machine DoNothing (Ref 0), (empty_heap(0 := [''x'' \<mapsto> Number (PNum 9)])))) \<and>
   evaluate_stmt 3 sample_while (Ref 0) (empty_heap(0 := [''x'' \<mapsto> Number (PNum 1)])) = Some (Inr (Ref 0, (empty_heap(0 := [''x'' \<mapsto> Number (PNum 9)]))))"
  by (simp add: sample_while_def eval_nat_numeral get_property_def merge_def js_times_def
        js_less_def)

text \<open>
  C7, as the code has it.  Evaluating \<open>Variable("z")\<close> under the empty environment \<open>{}\<close>
  raises nothing: \<open>Variable.reduce\<close> and \<open>Variable.evaluate\<close> return \<open>undefined\<close>, and so
  does the compiled closure.
\<close>

theorem unbound_variable_silent:
  "reduce_expr (Variable ''z'') (Ref 0) empty_heap = Inr Undefined \<and>
   evaluate_expr (Variable ''z'') (Ref 0) empty_heap = Inr Undefined \<and>
   call_compiled_expr (Variable ''z'') (Ref 0) empty_cheap = Inr PUndefined"
  by (simp add: get_property_def get_field_def call_compiled_expr_def empty_heap_def
      empty_cheap_def inherited_def object_prototype_names_def identifier_start_def)

text \<open>
  Against C7 as stated: \<open>Variable("z").evaluate({})\<close> is no error; it is \<open>undefined\<close>.
\<close>

theorem unbound_variable_no_error:
  "evaluate_expr (Variable ''z'') (Ref 0) empty_heap = Inr Undefined"
  by (simp add: get_property_def empty_heap_def inherited_def object_prototype_names_def)

text \<open>
  C8, as the code has it.  When the condition evaluates to a node whose \<open>value\<close> is
  neither \<open>true\<close> nor \<open>false\<close>, \<open>If.evaluate\<close> and \<open>While.evaluate\<close> raise nothing and
  return \<open>undefined\<close>; when the condition of an \<open>If\<close> has been reduced to such a node,
  \<open>If.reduce\<close> raises nothing and returns no result.  The store is left as it was.
\<close>

theorem non_boolean_condition_falls_through:
  "(evaluate_expr c env h = Inr cv \<longrightarrow> value_of cv = Inr v \<longrightarrow>
      v \<noteq> PBool True \<longrightarrow> v \<noteq> PBool False \<longrightarrow>
      evaluate_stmt n (If_node c a b) env h = Some (Inr (NoObject, h)) \<and>
      evaluate_stmt (Suc n) (While c b) env h = Some (Inr (NoObject, h))) \<and>
   (reducible_expr c = Inr False \<longrightarrow> value_of c = Inr v \<longrightarrow>
      v \<noteq> PBool True \<longrightarrow> v \<noteq> PBool False \<longrightarrow>
      reduce_stmt (If_node c a b) env h = Inr (NoResult, h))"
  by simp

theorem non_boolean_condition_falls_through_witness:
  "evaluate_expr (Number (PNum 3)) (Ref 0) empty_heap = Inr (Number (PNum 3)) \<and>
   value_of (Number (PNum 3)) = Inr (PNum 3) \<and>
   PNum 3 \<noteq> PBool True \<and> PNum 3 \<noteq> PBool False \<and>
   reducible_expr (Number (PNum 3)) = Inr False \<and>
   evaluate_stmt (Suc 0) (While (Number (PNum 3)) DoNothing) (Ref 0) empty_heap =
     Some (Inr (NoObject, empty_heap)) \<and>
   reduce_stmt (If_node (Number (PNum 3)) DoNothing DoNothing) (Ref 0) empty_heap =
     Inr (NoResult, empty_heap)"
  using non_boolean_condition_falls_through
    [of "Number (PNum 3)" "Ref 0" empty_heap "Number (PNum 3)" "PNum 3" 0 DoNothing DoNothing]
  by simp

text \<open>
  Against C8 as stated: with the condition \<open>Number(3)\<close>, \<open>If.evaluate\<close> returns \<open>undefined\<close>
  and raises no error.
\<close>

theorem non_boolean_condition_no_error:
  "evaluate_stmt 0 (If_node (Number (PNum 3)) DoNothing DoNothing) (Ref 0) empty_heap =
     Some (Inr (NoObject, empty_heap))"
  by simp

text \<open>
  C9.  \<open>DoNothing\<close> is the only statement whose \<open>reducible()\<close> is false, and whenever the
  run of the machine ends (without an exception), its statement is \<open>DoNothing\<close>.
\<close>

theorem only_DoNothing_irreducible:
  "(\<not> reducible_stmt s \<longleftrightarrow> s = DoNothing) \<and>
   (run n (Machine s0 env) h = Some (Inr (Machine s' env', h')) \<longrightarrow> s' = DoNothing)"
proof
  show "\<not> reducible_stmt s \<longleftrightarrow> s = DoNothing" by (cases s) simp_all
  show "run n (Machine s0 env) h = Some (Inr (Machine s' env', h')) \<longrightarrow> s' = DoNothing"
    using run_final by blast
qed

theorem only_DoNothing_irreducible_witness:
  "run 1 (Machine (Assign ''y'' (Number (PNum 1))) (Ref 0)) empty_heap =
     Some (Inr (Machine DoNothing (Ref 0), empty_heap(0 := [''y'' \<mapsto> Number (PNum 1)]))) \<and>
   \<not> reducible_stmt DoNothing"
  using only_DoNothing_irreducible
    [of DoNothing 1 "Assign ''y'' (Number (PNum 1))" "Ref 0" empty_heap DoNothing "Ref 0"
        "empty_heap(0 := [''y'' \<mapsto> Number (PNum 1)])"]
  by (simp add: merge_def empty_heap_def)

text \<open>
  C10.  For every statement \<open>s\<close> and every environment object of literal nodes: when the
  run of the machine from \<open>(s, env)\<close> ends, after \<open>n\<close> steps, in \<open>(s', env')\<close>, then
  \<open>s.evaluate(env)\<close> returns (with fuel \<open>n\<close>, and with any more) that same \<open>env'\<close>, with the
  same contents.  No typing is needed: a run on an ill-typed statement that ends also
  agrees with \<open>evaluate\<close>.
\<close>

theorem machine_agrees_with_evaluate:
  assumes "literal_object (h r)"
    and "run n (Machine s (Ref r)) h = Some (Inr (Machine s' env', h'))"
  shows "\<forall>k\<ge>n. evaluate_stmt k s (Ref r) h = Some (Inr (env', h'))"
  using evaluate_stmt_mono[OF run_evaluate[OF assms]] by blast

theorem machine_agrees_with_evaluate_witness:
  "literal_object ((empty_heap(0 := [''x'' \<mapsto> Number (PNum 1)])) 0) \<and>
   run 20 (Machine sample_while (Ref 0)) (empty_heap(0 := [''x'' \<mapsto> Number (PNum 1)])) = Some (Inr (Machine DoNothing (Ref 0), (empty_heap(0 := [''x'' \<mapsto> Number (PNum 9)])))) \<and>
   evaluate_stmt 20 sample_while (Ref 0) (empty_heap(0 := [''x'' \<mapsto> Number (PNum 1)])) = Some (Inr (Ref 0, (empty_heap(0 := [''x'' \<mapsto> Number (PNum 9)]))))"
proof -
  have lit: "literal_object ((empty_heap(0 := [''x'' \<mapsto> Number (PNum 1)])) 0)"
    by (simp add: literal_object_def)
  have rn: "run 20 (Machine sample_while (Ref 0)) (empty_heap(0 := [''x'' \<mapsto> Number (PNum 1)])) = Some (Inr (Machine DoNothing (Ref 0), (empty_heap(0 := [''x'' \<mapsto> Number (PNum 9)]))))"
    by (simp add: sample_while_def get_property_def merge_def js_times_def js_less_def)
  from machine_agrees_with_evaluate[OF lit rn] lit rn show ?thesis by simp
qed

end
